theory Spec2Isabelle
  imports Main "HOL-Library.Sublist"
begin

section \<open>Text: Python strings as lists of code points\<close>

text \<open>
  A Python \<open>str\<close> is a sequence of Unicode code points, and the emoji pass of the
  converter looks at code points far above 255, so a character is a \<open>nat\<close> (its code
  point) and a string a list of them. \<open>u\<close> turns an ASCII literal into such a string.
\<close>

type_synonym ustr = "nat list"

definition u :: "string \<Rightarrow> ustr" where
  "u = map of_char"

abbreviation nl :: nat where
  "nl \<equiv> 10"

text \<open>
  The regular-expression classes \<open>\w\<close> and \<open>\d\<close> of a Python \<open>str\<close> pattern are
  \<open>str.isalnum\<close> (or an underscore) and \<open>str.isdecimal\<close>. On ASCII they are written
  out; beyond ASCII they are read from the interpreter's Unicode database, which is not
  part of the repository and is a parameter of the model.
\<close>

record unicode_db =
  isalnum :: "nat \<Rightarrow> bool"
  isdecimal :: "nat \<Rightarrow> bool"

definition is_digit :: "unicode_db \<Rightarrow> nat \<Rightarrow> bool" where
  "is_digit db c = (if c < 128 then 48 \<le> c \<and> c \<le> 57 else isdecimal db c)"

definition is_word :: "unicode_db \<Rightarrow> nat \<Rightarrow> bool" where
  "is_word db c =
     (if c < 128
      then (48 \<le> c \<and> c \<le> 57) \<or> (65 \<le> c \<and> c \<le> 90) \<or> (97 \<le> c \<and> c \<le> 122) \<or> c = 95
      else isalnum db c)"

text \<open>The characters \<open>str.strip()\<close> removes: Python's Unicode whitespace.\<close>

definition is_space :: "nat \<Rightarrow> bool" where
  "is_space c =
     ((9 \<le> c \<and> c \<le> 13) \<or> (28 \<le> c \<and> c \<le> 32) \<or> c = 133 \<or> c = 160 \<or> c = 5760
      \<or> (8192 \<le> c \<and> c \<le> 8202) \<or> c = 8232 \<or> c = 8233 \<or> c = 8239 \<or> c = 8287
      \<or> c = 12288)"

definition strip :: "ustr \<Rightarrow> ustr" where
  "strip s = rev (dropWhile is_space (rev (dropWhile is_space s)))"

text \<open>\<open>s.split(c)\<close> for a one-character separator, and \<open>c.join(xs)\<close>.\<close>

fun split_on :: "nat \<Rightarrow> ustr \<Rightarrow> ustr list" where
  "split_on c [] = [[]]"
| "split_on c (x # xs) =
     (if x = c then [] # split_on c xs
      else (case split_on c xs of [] \<Rightarrow> [[x]] | l # ls \<Rightarrow> (x # l) # ls))"

fun join_with :: "nat \<Rightarrow> ustr list \<Rightarrow> ustr" where
  "join_with c [] = []"
| "join_with c [l] = l"
| "join_with c (l # ls) = l @ c # join_with c ls"

definition strip_prefix :: "ustr \<Rightarrow> ustr \<Rightarrow> ustr option" where
  "strip_prefix p s = (if prefix p s then Some (drop (length p) s) else None)"

section \<open>Substitution\<close>

text \<open>
  \<open>re.sub(pattern, repl, s)\<close> scans \<open>s\<close> from the left. Where the pattern matches, the
  match is replaced and the scan goes on behind it; elsewhere one character is copied. A
  matcher gives, for the text at the current position, the replacement and the text
  behind the match. No pattern of the converter matches the empty string, so a match
  always consumes a character (the test on the lengths).
\<close>

function re_sub :: "(ustr \<Rightarrow> (ustr \<times> ustr) option) \<Rightarrow> ustr \<Rightarrow> ustr" where
  "re_sub m [] = []"
| "re_sub m (c # cs) =
     (case m (c # cs) of
        None \<Rightarrow> c # re_sub m cs
      | Some (r, rest) \<Rightarrow>
          if length rest \<le> length cs then r @ re_sub m rest else c # re_sub m cs)"
  by pat_completeness auto
termination
  by (relation "measure (\<lambda>(m, s). length s)") auto

text \<open>
  A pattern anchored with \<open>^\<close> and \<open>$\<close> under \<open>re.MULTILINE\<close>, whose body cannot
  cross a newline, rewrites each line on its own.
\<close>

definition sub_lines :: "(ustr \<Rightarrow> ustr) \<Rightarrow> ustr \<Rightarrow> ustr" where
  "sub_lines f s = join_with nl (map f (split_on nl s))"

text \<open>\<open>^p(.+)$\<close> replaced by \<open>a\1b\<close>, on one line.\<close>

definition sub_line_prefix :: "ustr \<Rightarrow> ustr \<Rightarrow> ustr \<Rightarrow> ustr \<Rightarrow> ustr" where
  "sub_line_prefix p a b l =
     (case strip_prefix p l of
        None \<Rightarrow> l
      | Some r \<Rightarrow> if r \<noteq> [] then a @ r @ b else l)"

text \<open>Leftmost occurrence of \<open>d\<close>: the lazy \<open>.*?d\<close> under \<open>re.DOTALL\<close>.\<close>

fun find_first :: "ustr \<Rightarrow> ustr \<Rightarrow> (ustr \<times> ustr) option" where
  "find_first d [] = (if d = [] then Some ([], []) else None)"
| "find_first d (c # cs) =
     (if prefix d (c # cs) then Some ([], drop (length d) (c # cs))
      else map_option (\<lambda>(b, a). (c # b, a)) (find_first d cs))"

text \<open>Rightmost occurrence of \<open>d\<close>: the greedy \<open>.*d\<close> under \<open>re.DOTALL\<close>.\<close>

fun find_last :: "ustr \<Rightarrow> ustr \<Rightarrow> (ustr \<times> ustr) option" where
  "find_last d [] = (if d = [] then Some ([], []) else None)"
| "find_last d (c # cs) =
     (case find_last d cs of
        Some (b, a) \<Rightarrow> Some (c # b, a)
      | None \<Rightarrow> if prefix d (c # cs) then Some ([], drop (length d) (c # cs)) else None)"

text \<open>The lazy \<open>.*?d\<close> and \<open>.+?d\<close> without \<open>re.DOTALL\<close>: the dot stops at a newline.\<close>

fun lazy_dot :: "ustr \<Rightarrow> ustr \<Rightarrow> (ustr \<times> ustr) option" where
  "lazy_dot d [] = (if d = [] then Some ([], []) else None)"
| "lazy_dot d (c # cs) =
     (if prefix d (c # cs) then Some ([], drop (length d) (c # cs))
      else if c = nl then None
      else map_option (\<lambda>(b, a). (c # b, a)) (lazy_dot d cs))"

definition lazy_dot1 :: "ustr \<Rightarrow> ustr \<Rightarrow> (ustr \<times> ustr) option" where
  "lazy_dot1 d s =
     (case s of
        [] \<Rightarrow> None
      | c # cs \<Rightarrow> if c = nl then None else map_option (\<lambda>(b, a). (c # b, a)) (lazy_dot d cs))"

section \<open>The converter\<close>

subsection \<open>Headers\<close>

definition headers :: "ustr \<Rightarrow> ustr" where
  "headers s =
     sub_lines (sub_line_prefix (u ''#### '') (u ''<h4>'') (u ''</h4>''))
      (sub_lines (sub_line_prefix (u ''### '') (u ''<h3>'') (u ''</h3>''))
        (sub_lines (sub_line_prefix (u ''## '') (u ''<h2>'') (u ''</h2>''))
          (sub_lines (sub_line_prefix (u ''# '') (u ''<h1>'') (u ''</h1>'')) s)))"

subsection \<open>Code blocks, inline code, bold, italic, links\<close>

text \<open>
  \<open>```(\w+)?\n(.*?)```\<close> with \<open>re.DOTALL\<close>. The greedy optional \<open>\w+\<close> takes the
  whole run of word characters (a shorter run is followed by a word character, not by the
  newline), the lazy body ends at the next fence.
\<close>

definition match_fence :: "unicode_db \<Rightarrow> ustr \<Rightarrow> (ustr \<times> ustr) option" where
  "match_fence db s =
     (case strip_prefix (u ''```'') s of
        None \<Rightarrow> None
      | Some r \<Rightarrow>
          (case strip_prefix [nl] (dropWhile (is_word db) r) of
             None \<Rightarrow> None
           | Some r' \<Rightarrow>
               (case find_first (u ''```'') r' of
                  None \<Rightarrow> None
                | Some (body, rest) \<Rightarrow>
                    Some (u ''<pre><code>'' @ body @ u ''</code></pre>'', rest))))"

definition code_blocks :: "unicode_db \<Rightarrow> ustr \<Rightarrow> ustr" where
  "code_blocks db = re_sub (match_fence db)"

text \<open>\<open>`([^`]+)`\<close>: the class takes every character up to the next backtick.\<close>

definition match_code :: "ustr \<Rightarrow> (ustr \<times> ustr) option" where
  "match_code s =
     (case strip_prefix (u ''`'') s of
        None \<Rightarrow> None
      | Some r \<Rightarrow>
          (let body = takeWhile (\<lambda>c. c \<noteq> 96) r in
           case strip_prefix (u ''`'') (dropWhile (\<lambda>c. c \<noteq> 96) r) of
             None \<Rightarrow> None
           | Some rest \<Rightarrow>
               if body \<noteq> [] then Some (u ''<code>'' @ body @ u ''</code>'', rest) else None))"

definition inline_code :: "ustr \<Rightarrow> ustr" where
  "inline_code = re_sub match_code"

text \<open>\<open>\*\*(.+?)\*\*\<close> and \<open>\*(.+?)\*\<close>.\<close>

definition match_span :: "ustr \<Rightarrow> ustr \<Rightarrow> ustr \<Rightarrow> ustr \<Rightarrow> (ustr \<times> ustr) option" where
  "match_span d a b s =
     (case strip_prefix d s of
        None \<Rightarrow> None
      | Some r \<Rightarrow>
          (case lazy_dot1 d r of
             None \<Rightarrow> None
           | Some (body, rest) \<Rightarrow> Some (a @ body @ b, rest)))"

definition bold :: "ustr \<Rightarrow> ustr" where
  "bold = re_sub (match_span (u ''**'') (u ''<strong>'') (u ''</strong>''))"

definition italic :: "ustr \<Rightarrow> ustr" where
  "italic = re_sub (match_span (u ''*'') (u ''<em>'') (u ''</em>''))"

text \<open>\<open>\[([^\]]+)\]\(([^\)]+)\)\<close> replaced by \<open><a href="\2">\1</a>\<close>.\<close>

definition match_link :: "ustr \<Rightarrow> (ustr \<times> ustr) option" where
  "match_link s =
     (case strip_prefix (u ''['') s of
        None \<Rightarrow> None
      | Some r \<Rightarrow>
          (let label = takeWhile (\<lambda>c. c \<noteq> 93) r in
           case strip_prefix (u '']('') (dropWhile (\<lambda>c. c \<noteq> 93) r) of
             None \<Rightarrow> None
           | Some r' \<Rightarrow>
               (let url = takeWhile (\<lambda>c. c \<noteq> 41) r' in
                case strip_prefix (u '')'') (dropWhile (\<lambda>c. c \<noteq> 41) r') of
                  None \<Rightarrow> None
                | Some rest \<Rightarrow>
                    if label \<noteq> [] \<and> url \<noteq> []
                    then Some (u ''<a href=\"'' @ url @ u ''\">'' @ label @ u ''</a>'', rest)
                    else None)))"

definition links :: "ustr \<Rightarrow> ustr" where
  "links = re_sub match_link"

subsection \<open>Rules and lists\<close>

text \<open>\<open>^---+$\<close>: a line of three or more hyphens.\<close>

definition hr_line :: "ustr \<Rightarrow> ustr" where
  "hr_line l = (if 3 \<le> length l \<and> list_all (\<lambda>c. c = 45) l then u ''<hr>'' else l)"

definition horizontal_rules :: "ustr \<Rightarrow> ustr" where
  "horizontal_rules = sub_lines hr_line"

definition list_items :: "ustr \<Rightarrow> ustr" where
  "list_items = sub_lines (sub_line_prefix (u ''- '') (u ''<li>'') (u ''</li>''))"

text \<open>
  \<open>(<li>.*</li>)\<close> with \<open>re.DOTALL\<close>: from a \<open><li>\<close> the greedy \<open>.*\<close> runs to the
  last \<open></li>\<close> of the text.
\<close>

definition match_ul :: "ustr \<Rightarrow> (ustr \<times> ustr) option" where
  "match_ul s =
     (case strip_prefix (u ''<li>'') s of
        None \<Rightarrow> None
      | Some r \<Rightarrow>
          (case find_last (u ''</li>'') r of
             None \<Rightarrow> None
           | Some (body, rest) \<Rightarrow>
               Some (u ''<ul>'' @ u ''<li>'' @ body @ u ''</li>'' @ u ''</ul>'', rest)))"

definition wrap_ul :: "ustr \<Rightarrow> ustr" where
  "wrap_ul = re_sub match_ul"

text \<open>\<open>^\d+\. (.+)$\<close>: the greedy \<open>\d+\<close> takes the whole run of digits.\<close>

definition ol_line :: "unicode_db \<Rightarrow> ustr \<Rightarrow> ustr" where
  "ol_line db l =
     (if takeWhile (is_digit db) l = [] then l
      else (case strip_prefix (u ''. '') (dropWhile (is_digit db) l) of
              None \<Rightarrow> l
            | Some r \<Rightarrow> if r \<noteq> [] then u ''<li>'' @ r @ u ''</li>'' else l))"

definition numbered_items :: "unicode_db \<Rightarrow> ustr \<Rightarrow> ustr" where
  "numbered_items db = sub_lines (ol_line db)"

subsection \<open>Tables\<close>

text \<open>
  \<open>\|[^\n]+\|\n\<close> at the current position: the text up to the next newline starts
  with a pipe, ends with a pipe (the only pipe that a newline follows) and has at least
  one character between the two. The row is returned without its newline.
\<close>

definition match_row :: "ustr \<Rightarrow> (ustr \<times> ustr) option" where
  "match_row s =
     (let l = takeWhile (\<lambda>c. c \<noteq> nl) s in
      case strip_prefix [nl] (dropWhile (\<lambda>c. c \<noteq> nl) s) of
        None \<Rightarrow> None
      | Some rest \<Rightarrow>
          if 3 \<le> length l \<and> hd l = 124 \<and> last l = 124 then Some (l, rest) else None)"

text \<open>\<open>\|[-:\| ]+\|\n\<close>: a row whose inner characters are hyphens, colons, pipes and spaces.\<close>

definition is_sep_char :: "nat \<Rightarrow> bool" where
  "is_sep_char c = (c = 45 \<or> c = 58 \<or> c = 124 \<or> c = 32)"

definition match_sep :: "ustr \<Rightarrow> (ustr \<times> ustr) option" where
  "match_sep s =
     (case match_row s of
        None \<Rightarrow> None
      | Some (l, rest) \<Rightarrow> if list_all is_sep_char (butlast (tl l)) then Some (l, rest) else None)"

lemma match_row_shorter: "match_row s = Some (l, rest) \<Longrightarrow> length rest < length s"
proof -
  assume a: "match_row s = Some (l, rest)"
  have "length (dropWhile (\<lambda>c. c \<noteq> nl) s) \<le> length s"
    by (rule length_dropWhile_le)
  moreover from a have "dropWhile (\<lambda>c. c \<noteq> nl) s = nl # rest"
    by (auto simp: match_row_def strip_prefix_def Let_def prefix_def split: if_splits)
  ultimately show ?thesis by simp
qed

text \<open>\<open>(\|[^\n]+\|\n)+\<close> is greedy and nothing follows it: it takes rows while there are rows.\<close>

function match_rows :: "ustr \<Rightarrow> ustr list \<times> ustr" where
  "match_rows s =
     (case match_row s of
        None \<Rightarrow> ([], s)
      | Some (l, rest) \<Rightarrow> (case match_rows rest of (ls, r) \<Rightarrow> (l # ls, r)))"
  by pat_completeness auto
termination
  by (relation "measure length") (auto dest: match_row_shorter)

text \<open>\<open>xs[1:-1]\<close>, and the cells of a row: \<open>[c.strip() for c in line.split('|')[1:-1]]\<close>.\<close>

definition inner :: "'a list \<Rightarrow> 'a list" where
  "inner xs = butlast (tl xs)"

definition cells :: "ustr \<Rightarrow> ustr list" where
  "cells line = map strip (inner (split_on 124 line))"

definition table_row :: "ustr \<Rightarrow> ustr \<Rightarrow> ustr list \<Rightarrow> ustr" where
  "table_row a b cs = u ''<tr>'' @ concat (map (\<lambda>c. a @ c @ b) cs) @ u ''</tr>'' @ [nl]"

definition convert_table :: "ustr \<Rightarrow> ustr" where
  "convert_table g =
     (let lines = split_on nl g in
      if length lines < 3 then g
      else u ''<table>'' @ [nl]
           @ table_row (u ''<th>'') (u ''</th>'') (cells (lines ! 0))
           @ concat (map (\<lambda>line. if strip line \<noteq> []
                                    then table_row (u ''<td>'') (u ''</td>'') (cells line)
                                    else [])
                      (drop 2 lines))
           @ u ''</table>'')"

text \<open>
  The whole pattern: a row, a separator row, one or more rows. The match (group 0) is
  the rows with their newlines.
\<close>

definition match_table :: "ustr \<Rightarrow> (ustr \<times> ustr) option" where
  "match_table s =
     (case match_row s of
        None \<Rightarrow> None
      | Some (h, r1) \<Rightarrow>
          (case match_sep r1 of
             None \<Rightarrow> None
           | Some (sep, r2) \<Rightarrow>
               (case match_rows r2 of
                  (rows, rest) \<Rightarrow>
                    if rows = [] then None
                    else Some (convert_table (concat (map (\<lambda>l. l @ [nl]) (h # sep # rows))),
                               rest))))"

definition tables :: "ustr \<Rightarrow> ustr" where
  "tables = re_sub match_table"





subsection \<open>Paragraphs\<close>

definition startswith_any :: "ustr \<Rightarrow> ustr list \<Rightarrow> bool" where
  "startswith_any s ps = list_ex (\<lambda>p. prefix p s) ps"

definition block_open :: "ustr list" where
  "block_open = [u ''<h'', u ''<pre>'', u ''<ul>'', u ''<ol>'', u ''<table>'', u ''<hr>'', u ''<li>'']"

definition block_close :: "ustr list" where
  "block_close = [u ''</pre>'', u ''</ul>'', u ''</ol>'', u ''</table>'']"

text \<open>The loop over the lines, with the flag \<open>in_block\<close> it carries.\<close>

fun paragraph_lines :: "bool \<Rightarrow> ustr list \<Rightarrow> ustr list" where
  "paragraph_lines in_block [] = []"
| "paragraph_lines in_block (line # lines) =
     (let stripped = strip line in
      if startswith_any stripped block_open then line # paragraph_lines True lines
      else if startswith_any stripped block_close then line # paragraph_lines False lines
      else if stripped = [] then line # paragraph_lines in_block lines
      else if \<not> in_block \<and> stripped \<noteq> [] \<and> \<not> prefix (u ''<'') stripped
        then (u ''<p>'' @ line @ u ''</p>'') # paragraph_lines in_block lines
      else line # paragraph_lines in_block lines)"

definition paragraphs :: "ustr \<Rightarrow> ustr" where
  "paragraphs s = join_with nl (paragraph_lines False (split_on nl s))"

subsection \<open>Emoji\<close>

definition is_emoji :: "nat \<Rightarrow> bool" where
  "is_emoji c =
     ((127744 \<le> c \<and> c \<le> 129535) \<or> (9728 \<le> c \<and> c \<le> 9983) \<or> (9984 \<le> c \<and> c \<le> 10175))"

definition emoji_char :: "nat \<Rightarrow> ustr" where
  "emoji_char c = (if is_emoji c then u ''<span class=\"emoji\">'' @ [c] @ u ''</span>'' else [c])"

definition emojis :: "ustr \<Rightarrow> ustr" where
  "emojis s = concat (map emoji_char s)"

subsection \<open>The passes in order\<close>

definition inline_passes :: "unicode_db \<Rightarrow> ustr \<Rightarrow> ustr" where
  "inline_passes db s = links (italic (bold (inline_code (code_blocks db (headers s)))))"

definition block_passes :: "unicode_db \<Rightarrow> ustr \<Rightarrow> ustr" where
  "block_passes db s = tables (numbered_items db (wrap_ul (list_items (horizontal_rules s))))"

definition convert_markdown_to_html :: "unicode_db \<Rightarrow> ustr \<Rightarrow> ustr" where
  "convert_markdown_to_html db s = emojis (paragraphs (block_passes db (inline_passes db s)))"

subsection \<open>Text that no pass matches\<close>











section \<open>The page assembler\<close>

subsection \<open>The title\<close>

text \<open>\<open>re.search\<close>: the leftmost position where the pattern matches.\<close>

fun re_search :: "(ustr \<Rightarrow> 'a option) \<Rightarrow> ustr \<Rightarrow> 'a option" where
  "re_search m [] = m []"
| "re_search m (c # cs) = (case m (c # cs) of Some x \<Rightarrow> Some x | None \<Rightarrow> re_search m cs)"

text \<open>\<open><h1>(.+?)</h1>\<close> at the current position: group 1, and the text behind the match.\<close>

definition match_h1 :: "ustr \<Rightarrow> (ustr \<times> ustr) option" where
  "match_h1 s =
     (case strip_prefix (u ''<h1>'') s of
        None \<Rightarrow> None
      | Some r \<Rightarrow> lazy_dot1 (u ''</h1>'') r)"

text \<open>\<open><[^>]+>\<close> replaced by the empty string.\<close>

definition match_tag :: "ustr \<Rightarrow> (ustr \<times> ustr) option" where
  "match_tag s =
     (case strip_prefix (u ''<'') s of
        None \<Rightarrow> None
      | Some r \<Rightarrow>
          (case strip_prefix (u ''>'') (dropWhile (\<lambda>c. c \<noteq> 62) r) of
             None \<Rightarrow> None
           | Some rest \<Rightarrow> if takeWhile (\<lambda>c. c \<noteq> 62) r \<noteq> [] then Some ([], rest) else None))"

definition strip_tags :: "ustr \<Rightarrow> ustr" where
  "strip_tags = re_sub match_tag"

text \<open>
  In the words of the spec: an occurrence of \<open><h1>...</h1>\<close> in a fragment is a
  non-empty text on one line between \<open><h1>\<close> and \<open></h1>\<close>; the first occurrence is
  the one that starts leftmost and, from there, ends soonest.
\<close>

definition h1_occurrence :: "ustr \<Rightarrow> ustr \<Rightarrow> ustr \<Rightarrow> ustr \<Rightarrow> bool" where
  "h1_occurrence html a t b =
     (html = a @ u ''<h1>'' @ t @ u ''</h1>'' @ b \<and> t \<noteq> [] \<and> nl \<notin> set t)"

definition first_h1 :: "ustr \<Rightarrow> ustr \<Rightarrow> ustr \<Rightarrow> ustr \<Rightarrow> bool" where
  "first_h1 html a t b =
     (h1_occurrence html a t b
      \<and> (\<forall>a' t' b'. h1_occurrence html a' t' b' \<longrightarrow>
             length a < length a' \<or> (length a = length a' \<and> length t \<le> length t')))"

definition page_title :: "ustr \<Rightarrow> ustr" where
  "page_title html_content =
     strip_tags (case re_search match_h1 html_content of
                   Some (t, r) \<Rightarrow> t
                 | None \<Rightarrow> u ''FP-ASM'')"

subsection \<open>The template\<close>

text \<open>
  \<open>HTML_TEMPLATE\<close> is a format string: literal text (where \<open>{{\<close> and \<open>}}\<close> of the
  source stand for one brace, written here as the brace) and eleven named fields.
\<close>

datatype nav = Index | Readme | Quick | Api | Complete | Tier1 | Tier2 | Tier3 | Achievement

datatype field = Title | Content | Active nav

datatype piece = Lit ustr | Field field

definition template_text_0 :: ustr where
  "template_text_0 =
     join_with nl
      [u ''<!DOCTYPE html>'',
       u ''<html lang='' @ [34] @ u ''en'' @ [34] @ u ''>'',
       u ''<head>'',
       u ''    <meta charset='' @ [34] @ u ''UTF-8'' @ [34] @ u ''>'',
       u ''    <meta name='' @ [34] @ u ''viewport'' @ [34] @ u '' content='' @ [34] @ u ''width=device-width, initial-scale=1.0'' @ [34] @ u ''>'',
       u ''    <title>'']"

definition template_text_1 :: ustr where
  "template_text_1 =
     join_with nl
      [u '' - FP-ASM Library</title>'',
       u ''    <style>'',
       u ''        * {'',
       u ''            margin: 0;'',
       u ''            padding: 0;'',
       u ''            box-sizing: border-box;'',
       u ''        }'',
       [],
       u ''        body {'',
       u ''            font-family: -apple-system, BlinkMacSystemFont, '' @ [39] @ u ''Segoe UI'' @ [39] @ u '', Roboto, Oxygen, Ubuntu, Cantarell, sans-serif;'',
       u ''            line-height: 1.6;'',
       u ''            color: #333;'',
       u ''            background: #f5f5f5;'',
       u ''        }'',
       [],
       u ''        .container {'',
       u ''            display: flex;'',
       u ''            max-width: 1400px;'',
       u ''            margin: 0 auto;'',
       u ''            background: white;'',
       u ''            min-height: 100vh;'',
       u ''        }'',
       [],
       u ''        /* Sidebar Navigation */'',
       u ''        .sidebar {'',
       u ''            width: 280px;'',
       u ''            background: #2c3e50;'',
       u ''            color: white;'',
       u ''            padding: 20px;'',
       u ''            position: sticky;'',
       u ''            top: 0;'',
       u ''            height: 100vh;'',
       u ''            overflow-y: auto;'',
       u ''        }'',
       [],
       u ''        .sidebar h2 {'',
       u ''            color: #3498db;'',
       u ''            margin-bottom: 20px;'',
       u ''            font-size: 1.4em;'',
       u ''            border-bottom: 2px solid #3498db;'',
       u ''            padding-bottom: 10px;'',
       u ''        }'',
       [],
       u ''        .sidebar nav ul {'',
       u ''            list-style: none;'',
       u ''        }'',
       [],
       u ''        .sidebar nav li {'',
       u ''            margin: 8px 0;'',
       u ''        }'',
       [],
       u ''        .sidebar nav a {'',
       u ''            color: #ecf0f1;'',
       u ''            text-decoration: none;'',
       u ''            display: block;'',
       u ''            padding: 8px 12px;'',
       u ''            border-radius: 4px;'',
       u ''            transition: all 0.3s;'',
       u ''        }'',
       [],
       u ''        .sidebar nav a:hover {'',
       u ''            background: #34495e;'',
       u ''            color: #3498db;'',
       u ''            transform: translateX(5px);'',
       u ''        }'',
       [],
       u ''        .sidebar nav a.active {'',
       u ''            background: #3498db;'',
       u ''            color: white;'',
       u ''        }'',
       [],
       u ''        .sidebar .badge {'',
       u ''            display: inline-block;'',
       u ''            background: #27ae60;'',
       u ''            color: white;'',
       u ''            font-size: 0.7em;'',
       u ''            padding: 2px 6px;'',
       u ''            border-radius: 3px;'',
       u ''            margin-left: 8px;'',
       u ''        }'',
       [],
       u ''        /* Main Content */'',
       u ''        .content {'',
       u ''            flex: 1;'',
       u ''            padding: 40px 60px;'',
       u ''            overflow-y: auto;'',
       u ''        }'',
       [],
       u ''        .content h1 {'',
       u ''            color: #2c3e50;'',
       u ''            font-size: 2.5em;'',
       u ''            margin-bottom: 20px;'',
       u ''            border-bottom: 3px solid #3498db;'',
       u ''            padding-bottom: 10px;'',
       u ''        }'',
       [],
       u ''        .content h2 {'',
       u ''            color: #34495e;'',
       u ''            font-size: 2em;'',
       u ''            margin-top: 40px;'',
       u ''            margin-bottom: 15px;'',
       u ''            border-left: 4px solid #3498db;'',
       u ''            padding-left: 15px;'',
       u ''        }'',
       [],
       u ''        .content h3 {'',
       u ''            color: #34495e;'',
       u ''            font-size: 1.5em;'',
       u ''            margin-top: 30px;'',
       u ''            margin-bottom: 10px;'',
       u ''        }'',
       [],
       u ''        .content h4 {'',
       u ''            color: #7f8c8d;'',
       u ''            font-size: 1.2em;'',
       u ''            margin-top: 20px;'',
       u ''            margin-bottom: 10px;'',
       u ''        }'',
       [],
       u ''        .content p {'',
       u ''            margin: 15px 0;'',
       u ''            line-height: 1.8;'',
       u ''        }'',
       [],
       u ''        .content ul, .content ol {'',
       u ''            margin: 15px 0 15px 30px;'',
       u ''        }'',
       [],
       u ''        .content li {'',
       u ''            margin: 8px 0;'',
       u ''        }'',
       [],
       u ''        /* Code Blocks */'',
       u ''        .content pre {'',
       u ''            background: #2c3e50;'',
       u ''            color: #ecf0f1;'',
       u ''            padding: 20px;'',
       u ''            border-radius: 6px;'',
       u ''            overflow-x: auto;'',
       u ''            margin: 20px 0;'',
       u ''            border-left: 4px solid #3498db;'',
       u ''        }'',
       [],
       u ''        .content code {'',
       u ''            background: #ecf0f1;'',
       u ''            padding: 2px 6px;'',
       u ''            border-radius: 3px;'',
       u ''            font-family: '' @ [39] @ u ''Courier New'' @ [39] @ u '', monospace;'',
       u ''            font-size: 0.9em;'',
       u ''            color: #c7254e;'',
       u ''        }'',
       [],
       u ''        .content pre code {'',
       u ''            background: transparent;'',
       u ''            padding: 0;'',
       u ''            color: #ecf0f1;'',
       u ''        }'',
       [],
       u ''        /* Tables */'',
       u ''        .content table {'',
       u ''            width: 100%;'',
       u ''            border-collapse: collapse;'',
       u ''            margin: 20px 0;'',
       u ''            box-shadow: 0 2px 4px rgba(0,0,0,0.1);'',
       u ''        }'',
       [],
       u ''        .content th {'',
       u ''            background: #3498db;'',
       u ''            color: white;'',
       u ''            padding: 12px;'',
       u ''            text-align: left;'',
       u ''            font-weight: bold;'',
       u ''        }'',
       [],
       u ''        .content td {'',
       u ''            padding: 12px;'',
       u ''            border-bottom: 1px solid #ecf0f1;'',
       u ''        }'',
       [],
       u ''        .content tr:hover {'',
       u ''            background: #f8f9fa;'',
       u ''        }'',
       [],
       u ''        /* Badges */'',
       u ''        .badge-green {'',
       u ''            background: #27ae60;'',
       u ''            color: white;'',
       u ''            padding: 4px 10px;'',
       u ''            border-radius: 4px;'',
       u ''            font-size: 0.85em;'',
       u ''            font-weight: bold;'',
       u ''        }'',
       [],
       u ''        .badge-blue {'',
       u ''            background: #3498db;'',
       u ''            color: white;'',
       u ''            padding: 4px 10px;'',
       u ''            border-radius: 4px;'',
       u ''            font-size: 0.85em;'',
       u ''            font-weight: bold;'',
       u ''        }'',
       [],
       u ''        .badge-orange {'',
       u ''            background: #e67e22;'',
       u ''            color: white;'',
       u ''            padding: 4px 10px;'',
       u ''            border-radius: 4px;'',
       u ''            font-size: 0.85em;'',
       u ''            font-weight: bold;'',
       u ''        }'',
       [],
       u ''        /* Blockquotes */'',
       u ''        .content blockquote {'',
       u ''            border-left: 4px solid #3498db;'',
       u ''            padding: 15px 20px;'',
       u ''            background: #ecf0f1;'',
       u ''            margin: 20px 0;'',
       u ''            font-style: italic;'',
       u ''        }'',
       [],
       u ''        /* Links */'',
       u ''        .content a {'',
       u ''            color: #3498db;'',
       u ''            text-decoration: none;'',
       u ''            border-bottom: 1px solid transparent;'',
       u ''            transition: border-color 0.3s;'',
       u ''        }'',
       [],
       u ''        .content a:hover {'',
       u ''            border-bottom-color: #3498db;'',
       u ''        }'',
       [],
       u ''        /* Horizontal Rules */'',
       u ''        .content hr {'',
       u ''            border: none;'',
       u ''            border-top: 2px solid #ecf0f1;'',
       u ''            margin: 40px 0;'',
       u ''        }'',
       [],
       u ''        /* Emoji support */'',
       u ''        .emoji {'',
       u ''            font-size: 1.2em;'',
       u ''        }'',
       [],
       u ''        /* Top banner */'',
       u ''        .banner {'',
       u ''            background: linear-gradient(135deg, #667eea 0%, #764ba2 100%);'',
       u ''            color: white;'',
       u ''            padding: 20px 60px;'',
       u ''            box-shadow: 0 2px 10px rgba(0,0,0,0.1);'',
       u ''        }'',
       [],
       u ''        .banner h1 {'',
       u ''            color: white;'',
       u ''            border: none;'',
       u ''            margin: 0;'',
       u ''            font-size: 1.8em;'',
       u ''        }'',
       [],
       u ''        .banner p {'',
       u ''            margin: 5px 0 0 0;'',
       u ''            opacity: 0.9;'',
       u ''        }'',
       [],
       u ''        /* Function signature boxes */'',
       u ''        .signature {'',
       u ''            background: #f8f9fa;'',
       u ''            border: 2px solid #3498db;'',
       u ''            border-radius: 6px;'',
       u ''            padding: 15px;'',
       u ''            margin: 20px 0;'',
       u ''            font-family: '' @ [39] @ u ''Courier New'' @ [39] @ u '', monospace;'',
       u ''        }'',
       [],
       u ''        /* Performance badges */'',
       u ''        .perf-badge {'',
       u ''            display: inline-block;'',
       u ''            padding: 6px 12px;'',
       u ''            border-radius: 20px;'',
       u ''            font-size: 0.85em;'',
       u ''            font-weight: bold;'',
       u ''            margin: 5px 5px 5px 0;'',
       u ''        }'',
       [],
       u ''        .perf-excellent { background: #27ae60; color: white; }'',
       u ''        .perf-good { background: #2ecc71; color: white; }'',
       u ''        .perf-okay { background: #f39c12; color: white; }'',
       u ''        .perf-competitive { background: #3498db; color: white; }'',
       [],
       u ''        /* Scrollbar styling */'',
       u ''        ::-webkit-scrollbar {'',
       u ''            width: 10px;'',
       u ''        }'',
       [],
       u ''        ::-webkit-scrollbar-track {'',
       u ''            background: #f1f1f1;'',
       u ''        }'',
       [],
       u ''        ::-webkit-scrollbar-thumb {'',
       u ''            background: #888;'',
       u ''            border-radius: 5px;'',
       u ''        }'',
       [],
       u ''        ::-webkit-scrollbar-thumb:hover {'',
       u ''            background: #555;'',
       u ''        }'',
       [],
       u ''        @media (max-width: 768px) {'',
       u ''            .container {'',
       u ''                flex-direction: column;'',
       u ''            }'',
       [],
       u ''            .sidebar {'',
       u ''                width: 100%;'',
       u ''                height: auto;'',
       u ''                position: relative;'',
       u ''            }'',
       [],
       u ''            .content {'',
       u ''                padding: 20px;'',
       u ''            }'',
       [],
       u ''            .banner {'',
       u ''                padding: 15px 20px;'',
       u ''            }'',
       u ''        }'',
       u ''    </style>'',
       u ''</head>'',
       u ''<body>'',
       u ''    <div class='' @ [34] @ u ''banner'' @ [34] @ u ''>'',
       u ''        <h1>'' @ [128640] @ u '' FP-ASM Library Documentation</h1>'',
       u ''        <p>Complete Functional Programming Toolkit for C '' @ [8226] @ u '' 100% FP Coverage '' @ [8226] @ u '' 36 Functions '' @ [8226] @ u '' Production Ready</p>'',
       u ''    </div>'',
       u ''    <div class='' @ [34] @ u ''container'' @ [34] @ u ''>'',
       u ''        <aside class='' @ [34] @ u ''sidebar'' @ [34] @ u ''>'',
       u ''            <h2>'' @ [128218] @ u '' Documentation</h2>'',
       u ''            <nav>'',
       u ''                <ul>'',
       u ''                    <li><a href='' @ [34] @ u ''index.html'' @ [34] @ u '' class='' @ [34]]"

definition template_text_2 :: ustr where
  "template_text_2 =
     join_with nl
      [[34] @ u ''>'' @ [127968] @ u '' Home</a></li>'',
       u ''                    <li><a href='' @ [34] @ u ''README.html'' @ [34] @ u '' class='' @ [34]]"

definition template_text_3 :: ustr where
  "template_text_3 =
     join_with nl
      [[34] @ u ''>'' @ [128214] @ u '' Overview</a></li>'',
       u ''                    <li><a href='' @ [34] @ u ''QUICK_START.html'' @ [34] @ u '' class='' @ [34]]"

definition template_text_4 :: ustr where
  "template_text_4 =
     join_with nl
      [[34] @ u ''>'' @ [128640] @ u '' Quick Start</a></li>'',
       u ''                    <li><a href='' @ [34] @ u ''API_REFERENCE.html'' @ [34] @ u '' class='' @ [34]]"

definition template_text_5 :: ustr where
  "template_text_5 =
     join_with nl
      [[34] @ u ''>'' @ [128216] @ u '' API Reference <span class='' @ [34] @ u ''badge'' @ [34] @ u ''>36 funcs</span></a></li>'',
       u ''                    <li><a href='' @ [34] @ u ''COMPLETE_LIBRARY_REPORT.html'' @ [34] @ u '' class='' @ [34]]"

definition template_text_6 :: ustr where
  "template_text_6 =
     join_with nl
      [[34] @ u ''>'' @ [127881] @ u '' Journey Report</a></li>'',
       u ''                    <li><a href='' @ [34] @ u ''TIER1_COMPLETENESS_REPORT.html'' @ [34] @ u '' class='' @ [34]]"

definition template_text_7 :: ustr where
  "template_text_7 =
     join_with nl
      [[34] @ u ''>'' @ [128202] @ u '' TIER 1 Report</a></li>'',
       u ''                    <li><a href='' @ [34] @ u ''TIER2_COMPLETENESS_REPORT.html'' @ [34] @ u '' class='' @ [34]]"

definition template_text_8 :: ustr where
  "template_text_8 =
     join_with nl
      [[34] @ u ''>'' @ [128202] @ u '' TIER 2 Report</a></li>'',
       u ''                    <li><a href='' @ [34] @ u ''TIER3_COMPLETENESS_REPORT.html'' @ [34] @ u '' class='' @ [34]]"

definition template_text_9 :: ustr where
  "template_text_9 =
     join_with nl
      [[34] @ u ''>'' @ [128202] @ u '' TIER 3 Report</a></li>'',
       u ''                    <li><a href='' @ [34] @ u ''ACHIEVEMENT_SUMMARY.html'' @ [34] @ u '' class='' @ [34]]"

definition template_text_10 :: ustr where
  "template_text_10 =
     join_with nl
      [[34] @ u ''>'' @ [127942] @ u '' Achievement</a></li>'',
       u ''                </ul>'',
       u ''            </nav>'',
       u ''        </aside>'',
       u ''        <main class='' @ [34] @ u ''content'' @ [34] @ u ''>'',
       u ''            '']"

definition template_text_11 :: ustr where
  "template_text_11 =
     join_with nl
      [[],
       u ''        </main>'',
       u ''    </div>'',
       u ''</body>'',
       u ''</html>'',
       []]"

definition HTML_TEMPLATE :: "piece list" where
  "HTML_TEMPLATE =
     [Lit template_text_0,
      Field Title,
      Lit template_text_1,
      Field (Active Index),
      Lit template_text_2,
      Field (Active Readme),
      Lit template_text_3,
      Field (Active Quick),
      Lit template_text_4,
      Field (Active Api),
      Lit template_text_5,
      Field (Active Complete),
      Lit template_text_6,
      Field (Active Tier1),
      Lit template_text_7,
      Field (Active Tier2),
      Lit template_text_8,
      Field (Active Tier3),
      Lit template_text_9,
      Field (Active Achievement),
      Lit template_text_10,
      Field Content,
      Lit template_text_11]"

fun format_piece :: "ustr \<Rightarrow> ustr \<Rightarrow> (nav \<Rightarrow> ustr) \<Rightarrow> piece \<Rightarrow> ustr" where
  "format_piece title content flags (Lit s) = s"
| "format_piece title content flags (Field Title) = title"
| "format_piece title content flags (Field Content) = content"
| "format_piece title content flags (Field (Active n)) = flags n"

definition format :: "piece list \<Rightarrow> ustr \<Rightarrow> ustr \<Rightarrow> (nav \<Rightarrow> ustr) \<Rightarrow> ustr" where
  "format t title content flags = concat (map (format_piece title content flags) t)"

text \<open>The dictionary \<open>active_flags\<close>: every flag empty, then the one of the file set.\<close>

definition active_flags :: "ustr \<Rightarrow> nav \<Rightarrow> ustr" where
  "active_flags md_file =
     (if md_file = u ''README.md'' then (\<lambda>_. [])(Readme := u ''active'')
      else if md_file = u ''QUICK_START.md'' then (\<lambda>_. [])(Quick := u ''active'')
      else if md_file = u ''API_REFERENCE.md'' then (\<lambda>_. [])(Api := u ''active'')
      else if md_file = u ''COMPLETE_LIBRARY_REPORT.md'' then (\<lambda>_. [])(Complete := u ''active'')
      else if md_file = u ''TIER1_COMPLETENESS_REPORT.md'' then (\<lambda>_. [])(Tier1 := u ''active'')
      else if md_file = u ''TIER2_COMPLETENESS_REPORT.md'' then (\<lambda>_. [])(Tier2 := u ''active'')
      else if md_file = u ''TIER3_COMPLETENESS_REPORT.md'' then (\<lambda>_. [])(Tier3 := u ''active'')
      else if md_file = u ''ACHIEVEMENT_SUMMARY.md'' then (\<lambda>_. [])(Achievement := u ''active'')
      else (\<lambda>_. []))"

subsection \<open>The fix-up of the links\<close>

text \<open>\<open>s.replace(old, new)\<close> for a non-empty \<open>old\<close>: the occurrences from the left.\<close>

definition match_lit :: "ustr \<Rightarrow> ustr \<Rightarrow> ustr \<Rightarrow> (ustr \<times> ustr) option" where
  "match_lit old new s = (case strip_prefix old s of None \<Rightarrow> None | Some r \<Rightarrow> Some (new, r))"

definition str_replace :: "ustr \<Rightarrow> ustr \<Rightarrow> ustr \<Rightarrow> ustr" where
  "str_replace old new = re_sub (match_lit old new)"

text \<open>\<open>sep.join(ps)\<close>: the pieces \<open>ps\<close> with \<open>sep\<close> between them.\<close>

fun join_str :: "ustr \<Rightarrow> ustr list \<Rightarrow> ustr" where
  "join_str sep [] = []"
| "join_str sep [p] = p"
| "join_str sep (p # q # ps) = p @ sep @ join_str sep (q # ps)"

text \<open>A Unicode database without letters or digits beyond ASCII, for runs on ASCII text.\<close>

definition ascii_db :: unicode_db where
  "ascii_db = \<lparr>isalnum = (\<lambda>c. False), isdecimal = (\<lambda>c. False)\<rparr>"

definition dot_md :: ustr where
  "dot_md = u ''.md'' @ [34]"

definition dot_html :: ustr where
  "dot_html = u ''.html'' @ [34]"

text \<open>The document before and after the fix-up, for one markdown file.\<close>

definition substituted :: "unicode_db \<Rightarrow> ustr \<Rightarrow> ustr \<Rightarrow> ustr" where
  "substituted db md_file markdown_content =
     (let html_content = convert_markdown_to_html db markdown_content;
          title = page_title html_content
      in format HTML_TEMPLATE title html_content (active_flags md_file))"

definition final_html :: "unicode_db \<Rightarrow> ustr \<Rightarrow> ustr \<Rightarrow> ustr" where
  "final_html db md_file markdown_content =
     str_replace dot_md dot_html (substituted db md_file markdown_content)"

section \<open>The orchestrator\<close>


definition md_files :: "ustr list" where
  "md_files =
     [u ''README.md'',
      u ''QUICK_START.md'',
      u ''API_REFERENCE.md'',
      u ''COMPLETE_LIBRARY_REPORT.md'',
      u ''TIER1_COMPLETENESS_REPORT.md'',
      u ''TIER2_COMPLETENESS_REPORT.md'',
      u ''TIER3_COMPLETENESS_REPORT.md'',
      u ''ACHIEVEMENT_SUMMARY.md'']"

text \<open>
  The world the run sees: the files of the working directory (a file that exists may
  still fail to open or decode), whether the output directory can be made and written,
  and how the platform prints paths. An operating-system error is not handled by the
  program and ends the run.
\<close>

datatype file_entry = Readable ustr | Unreadable

record world =
  files :: "ustr \<rightharpoonup> file_entry"
  can_write :: bool
  path_sep :: ustr
  abs_output :: ustr










text \<open>A working directory with one of the configured files, for a concrete run.\<close>

definition example_world :: world where
  "example_world =
     \<lparr>files = [u ''README.md'' \<mapsto> Readable (u ''# Hi'')],
      can_write = True,
      path_sep = u ''/'',
      abs_output = u ''/tmp/docs_html''\<rparr>"

section \<open>Evaluation\<close>

text \<open>The definitions a concrete run of the converter unfolds.\<close>

lemmas eval_defs = u_def strip_prefix_def sub_lines_def sub_line_prefix_def lazy_dot1_def
  headers_def match_fence_def code_blocks_def match_code_def inline_code_def match_span_def
  bold_def italic_def match_link_def links_def hr_line_def horizontal_rules_def list_items_def
  match_ul_def wrap_ul_def ol_line_def numbered_items_def match_row_def is_sep_char_def
  match_sep_def inner_def cells_def table_row_def convert_table_def match_table_def tables_def
  startswith_any_def block_open_def block_close_def paragraphs_def is_emoji_def emoji_char_def
  emojis_def inline_passes_def block_passes_def convert_markdown_to_html_def
  is_digit_def is_word_def is_space_def strip_def Let_def

section \<open>Scenario 1: a heading and a paragraph\<close>

text \<open>
  C1. The spec expects, for the input \<open># Title\n\nHello **world**.\<close>, the heading
  \<open><h1>Title</h1>\<close> and the sentence wrapped in paragraph markup. The converter gives the
  heading and the strong emphasis, but no paragraph: the heading line sets the flag
  \<open>in_block\<close> of the paragraph loop, no later line clears it, and the sentence is copied
  as it is. The theorem is the run of the converter on that input.
\<close>

theorem scenario1_no_paragraph:
  "convert_markdown_to_html db (u ''# Title\<newline>\<newline>Hello **world**.'')
     = u ''<h1>Title</h1>\<newline>\<newline>Hello <strong>world</strong>.''"
  by (simp add: eval_defs)

section \<open>Lemmas on splitting, joining and substituting\<close>










lemma re_sub_Some:
  "m s = Some (r, rest) \<Longrightarrow> length rest < length s \<Longrightarrow> re_sub m s = r @ re_sub m rest"
  by (cases s) auto

lemma re_sub_skip:
  "(\<And>a'. a' \<noteq> [] \<Longrightarrow> suffix a' a \<Longrightarrow> m (a' @ r) = None) \<Longrightarrow> re_sub m (a @ r) = a @ re_sub m r"
proof (induction a)
  case Nil show ?case by simp
next
  case (Cons x a)
  have "m ((x # a) @ r) = None" using Cons.prems[of "x # a"] by simp
  moreover have "re_sub m (a @ r) = a @ re_sub m r"
    using Cons.prems by (intro Cons.IH) (auto simp: suffix_Cons)
  ultimately show ?case by simp
qed

lemma re_sub_id:
  "(\<And>a'. a' \<noteq> [] \<Longrightarrow> suffix a' s \<Longrightarrow> m a' = None) \<Longrightarrow> re_sub m s = s"
  using re_sub_skip[of s m "[]"] by simp


lemma no_span:
  assumes "a \<noteq> []" "d \<noteq> []" "hd d \<notin> set (tl d)" "prefix d (a @ d @ r)"
  shows "prefix d a"
proof -
  from assms(4) consider "prefix d a" | us where "d = a @ us" "prefix us (d @ r)"
    unfolding prefix_append by blast
  then show ?thesis
  proof cases
    case 1 then show ?thesis .
  next
    case 2
    show ?thesis
    proof (cases "us = []")
      case True with 2(1) show ?thesis by simp
    next
      case False
      obtain x us' where us: "us = x # us'" using False by (cases us) auto
      obtain y d' where d: "d = y # d'" using assms(2) by (cases d) auto
      obtain z a' where a: "a = z # a'" using assms(1) by (cases a) auto
      from 2(2) have "x = y" unfolding us d by simp
      moreover from 2(1) have "d' = a' @ x # us'" unfolding us d a by simp
      ultimately have "hd d \<in> set (tl d)" unfolding d by simp
      with assms(3) show ?thesis by simp
    qed
  qed
qed

lemma find_last_None: "find_last d s = None \<longleftrightarrow> \<not> sublist d s"
  by (induction s) (auto simp: sublist_Cons_right split: option.splits)

lemma find_first_None: "find_first d s = None \<longleftrightarrow> \<not> sublist d s"
  by (induction s) (auto simp: sublist_Cons_right split: option.splits)

lemma find_last_Some: "find_last d s = Some (b, a) \<Longrightarrow> s = b @ d @ a"
proof (induction s arbitrary: b)
  case Nil then show ?case by (auto split: if_splits)
next
  case (Cons x s)
  then show ?case
    by (auto split: option.splits if_splits simp: prefix_def)
qed

lemma find_first_Some: "find_first d s = Some (b, a) \<Longrightarrow> s = b @ d @ a"
proof (induction s arbitrary: b)
  case Nil then show ?case by (auto split: if_splits)
next
  case (Cons x s)
  then show ?case
    by (auto split: option.splits if_splits simp: prefix_def)
qed

section \<open>The list container\<close>

lemma sublist_skip:
  "d \<noteq> [] \<Longrightarrow> hd d \<notin> set p \<Longrightarrow> sublist d (p @ e) \<Longrightarrow> sublist d e"
proof (induction p)
  case Nil then show ?case by simp
next
  case (Cons x p)
  from Cons.prems(1,2) have "\<not> prefix d (x # p @ e)" by (cases d) auto
  with Cons show ?case by (auto simp: sublist_Cons_right)
qed

lemma find_last_at:
  assumes "d \<noteq> []" "hd d \<notin> set (tl d)" "\<not> sublist d e"
  shows "find_last d (c @ d @ e) = Some (c, e)"
proof (induction c)
  case Nil
  obtain y d' where d: "d = y # d'" using assms(1) by (cases d) auto
  have "\<not> sublist d (d' @ e)" using sublist_skip[of d d' e] assms d by auto
  then have "find_last d (d' @ e) = None" by (simp add: find_last_None)
  then show ?case by (simp add: d)
next
  case (Cons x c)
  then show ?case by simp
qed

lemma li_open: "u ''<li>'' = [60, 108, 105, 62]" by (simp add: u_def)

lemma li_close: "u ''</li>'' = [60, 47, 108, 105, 62]" by (simp add: u_def)

lemma match_ul_at:
  assumes "\<not> sublist (u ''</li>'') d"
  shows "match_ul (u ''<li>'' @ c @ u ''</li>'' @ d)
           = Some (u ''<ul>'' @ u ''<li>'' @ c @ u ''</li>'' @ u ''</ul>'', d)"
proof -
  have "find_last (u ''</li>'') (c @ u ''</li>'' @ d) = Some (c, d)"
    using assms by (intro find_last_at) (simp_all add: li_close)
  then show ?thesis by (simp add: match_ul_def strip_prefix_def)
qed

lemma match_ul_none_before:
  assumes "\<not> sublist (u ''<li>'') a" "a' \<noteq> []" "suffix a' a"
  shows "match_ul (a' @ u ''<li>'' @ r) = None"
proof -
  have "\<not> prefix (u ''<li>'') (a' @ u ''<li>'' @ r)"
  proof
    assume "prefix (u ''<li>'') (a' @ u ''<li>'' @ r)"
    then have "prefix (u ''<li>'') a'"
      using assms(2) by (intro no_span[of a' "u ''<li>''" r]) (simp_all add: li_open)
    then have "sublist (u ''<li>'') a" using assms(3)
      by (meson prefix_imp_sublist suffix_imp_sublist sublist_order.order_trans)
    with assms(1) show False by simp
  qed
  then show ?thesis by (simp add: match_ul_def strip_prefix_def)
qed

lemma match_ul_none_after:
  assumes "\<not> sublist (u ''</li>'') d" "suffix d' d"
  shows "match_ul d' = None"
proof (cases "prefix (u ''<li>'') d'")
  case False then show ?thesis by (simp add: match_ul_def strip_prefix_def)
next
  case True
  have "sublist (drop (length (u ''<li>'')) d') d"
    using assms(2) by (meson sublist_drop suffix_imp_sublist sublist_order.order_trans)
  then have "\<not> sublist (u ''</li>'') (drop (length (u ''<li>'')) d')"
    using assms(1) by (meson sublist_order.order_trans)
  then have "find_last (u ''</li>'') (drop (length (u ''<li>'')) d') = None"
    by (simp add: find_last_None)
  then show ?thesis by (simp add: match_ul_def strip_prefix_def)
qed

lemma wrap_ul_span:
  assumes "\<not> sublist (u ''<li>'') a" "\<not> sublist (u ''</li>'') d"
  shows "wrap_ul (a @ u ''<li>'' @ c @ u ''</li>'' @ d)
           = a @ u ''<ul>'' @ u ''<li>'' @ c @ u ''</li>'' @ u ''</ul>'' @ d"
proof -
  let ?R = "u ''<li>'' @ c @ u ''</li>'' @ d"
  have 1: "re_sub match_ul (a @ ?R) = a @ re_sub match_ul ?R"
    using assms(1) by (intro re_sub_skip match_ul_none_before)
  have 2: "re_sub match_ul ?R
             = (u ''<ul>'' @ u ''<li>'' @ c @ u ''</li>'' @ u ''</ul>'') @ re_sub match_ul d"
    by (rule re_sub_Some[where m = match_ul, OF match_ul_at[OF assms(2), of c]])
       (simp add: li_open)
  have 3: "re_sub match_ul d = d"
    using assms(2) by (intro re_sub_id match_ul_none_after)
  show ?thesis unfolding wrap_ul_def 1 2 3 by simp
qed

text \<open>
  C3. The wrapping pass puts one \<open><ul>\<close> before the first \<open><li>\<close> of the text and
  one \<open></ul>\<close> behind its last \<open></li>\<close>, whatever lies between: when no \<open><li>\<close> occurs
  in \<open>a\<close> and no \<open></li>\<close> in \<open>d\<close>, the text \<open>a <li> c </li> d\<close> becomes
  \<open>a <ul><li> c </li></ul> d\<close>. Three adjacent bullet lines give one container with the
  three items in their order, and two bullet lists with a text line between them end up in
  one container.
\<close>

theorem ul_spans_first_to_last:
  "(\<forall>a c d. \<not> sublist (u ''<li>'') a \<longrightarrow> \<not> sublist (u ''</li>'') d \<longrightarrow>
       wrap_ul (a @ u ''<li>'' @ c @ u ''</li>'' @ d)
         = a @ u ''<ul>'' @ u ''<li>'' @ c @ u ''</li>'' @ u ''</ul>'' @ d)
   \<and> convert_markdown_to_html db (u ''- a\<newline>- b\<newline>- c'')
         = u ''<ul><li>a</li>\<newline><li>b</li>\<newline><li>c</li></ul>''
   \<and> convert_markdown_to_html db (u ''- a\<newline>text\<newline>- b'')
         = u ''<ul><li>a</li>\<newline>text\<newline><li>b</li></ul>''"
proof (intro conjI allI impI)
  fix a c d
  assume "\<not> sublist (u ''<li>'') a" "\<not> sublist (u ''</li>'') d"
  then show "wrap_ul (a @ u ''<li>'' @ c @ u ''</li>'' @ d)
               = a @ u ''<ul>'' @ u ''<li>'' @ c @ u ''</li>'' @ u ''</ul>'' @ d"
    by (rule wrap_ul_span)
next
  show "convert_markdown_to_html db (u ''- a\<newline>- b\<newline>- c'')
          = u ''<ul><li>a</li>\<newline><li>b</li>\<newline><li>c</li></ul>''"
    by (simp add: eval_defs)
next
  show "convert_markdown_to_html db (u ''- a\<newline>text\<newline>- b'')
          = u ''<ul><li>a</li>\<newline>text\<newline><li>b</li></ul>''"
    by (simp add: eval_defs)
qed

theorem ul_spans_first_to_last_witness:
  "\<not> sublist (u ''<li>'') (u ''x'') \<and> \<not> sublist (u ''</li>'') (u ''y'')
   \<and> wrap_ul (u ''x'' @ u ''<li>'' @ u ''a</li><li>b'' @ u ''</li>'' @ u ''y'')
        = u ''x<ul><li>a</li><li>b</li></ul>y''"
  using ul_spans_first_to_last [THEN conjunct1, rule_format, of "u ''x''" "u ''y''" "u ''a</li><li>b''"]
  by (simp add: u_def sublist_Cons_right)

section \<open>Lemmas on the replacement of a literal\<close>

lemma match_lit_Some: "prefix old s \<Longrightarrow> match_lit old new s = Some (new, drop (length old) s)"
  by (simp add: match_lit_def strip_prefix_def)

lemma match_lit_None: "\<not> prefix old s \<Longrightarrow> match_lit old new s = None"
  by (simp add: match_lit_def strip_prefix_def)

lemma str_replace_Nil: "str_replace old new [] = []"
  by (simp add: str_replace_def)

lemma str_replace_match:
  "old \<noteq> [] \<Longrightarrow> str_replace old new (old @ b) = new @ str_replace old new b"
  unfolding str_replace_def
  by (rule re_sub_Some[where m = "match_lit old new" and s = "old @ b" and rest = b and r = new])
     (simp_all add: match_lit_Some)

lemma str_replace_copy:
  "\<not> prefix old (x # s) \<Longrightarrow> str_replace old new (x # s) = x # str_replace old new s"
  by (simp add: str_replace_def match_lit_None)

lemma str_replace_id: "\<not> sublist old s \<Longrightarrow> str_replace old new s = s"
  unfolding str_replace_def
proof (rule re_sub_id)
  fix a' assume "\<not> sublist old s" "a' \<noteq> []" "suffix a' s"
  then have "\<not> prefix old a'"
    by (meson prefix_imp_sublist suffix_imp_sublist sublist_order.order_trans)
  then show "match_lit old new a' = None" by (rule match_lit_None)
qed

lemma str_replace_append:
  assumes "old \<noteq> []" "hd old \<notin> set (tl old)"
  shows "str_replace old new (a @ old @ b)
           = str_replace old new a @ new @ str_replace old new b"
proof (induction "length a" arbitrary: a rule: less_induct)
  case less
  show ?case
  proof (cases a)
    case Nil
    then show ?thesis using assms(1) by (simp add: str_replace_match str_replace_Nil)
  next
    case (Cons x a')
    show ?thesis
    proof (cases "prefix old a")
      case True
      then obtain a2 where a2: "a = old @ a2" by (auto simp: prefix_def)
      have "length a2 < length a" using a2 assms(1) by simp
      from less[OF this] show ?thesis
        using assms(1) by (simp add: a2 str_replace_match)
    next
      case False
      have "\<not> prefix old (a @ old @ b)"
        using no_span[of a old b] False assms Cons by auto
      then have 1: "str_replace old new (a @ old @ b) = x # str_replace old new (a' @ old @ b)"
        by (simp add: Cons str_replace_copy)
      have 2: "str_replace old new a = x # str_replace old new a'"
        using False by (simp add: Cons str_replace_copy)
      have "length a' < length a" by (simp add: Cons)
      from less[OF this] show ?thesis by (simp add: 1 2)
    qed
  qed
qed

lemma join_str_Cons: "ps \<noteq> [] \<Longrightarrow> join_str sep (p # ps) = p @ sep @ join_str sep ps"
  by (cases ps) auto

lemma str_replace_pieces:
  assumes "old \<noteq> []" "hd old \<notin> set (tl old)"
  shows "(\<And>q. q \<in> set ps \<Longrightarrow> \<not> sublist old q) \<Longrightarrow>
         str_replace old new (join_str old ps) = join_str new ps"
proof (induction ps)
  case Nil show ?case by (simp add: str_replace_Nil)
next
  case (Cons p ps)
  have hp: "\<not> sublist old p" using Cons.prems by simp
  show ?case
  proof (cases "ps = []")
    case True
    with hp show ?thesis by (simp add: str_replace_id)
  next
    case ne: False
    have "str_replace old new (join_str old ps) = join_str new ps"
      using Cons.prems by (intro Cons.IH) auto
    then show ?thesis
      using hp
      by (simp add: join_str_Cons[OF ne] str_replace_append[OF assms] str_replace_id)
  qed
qed

lemma str_replace_prefix_back:
  assumes "new \<noteq> []" "old \<noteq> []"
  shows "hd new \<notin> set p \<Longrightarrow> prefix p (str_replace old new s) \<Longrightarrow> prefix p s"
proof (induction p arbitrary: s)
  case Nil show ?case by simp
next
  case (Cons y p)
  show ?case
  proof (cases s)
    case Nil
    with Cons.prems show ?thesis by (simp add: str_replace_Nil)
  next
    case (Cons x cs)
    show ?thesis
    proof (cases "prefix old s")
      case True
      then obtain r where r: "s = old @ r" by (auto simp: prefix_def)
      have "str_replace old new s = new @ str_replace old new r"
        unfolding r using assms(2) by (rule str_replace_match)
      with Cons.prems(2) have "y = hd new" using assms(1) by (cases new) auto
      with Cons.prems(1) show ?thesis by simp
    next
      case False
      then have "str_replace old new s = x # str_replace old new cs"
        by (simp add: Cons str_replace_copy)
      with Cons.prems Cons.IH[of cs] show ?thesis by (simp add: Cons)
    qed
  qed
qed

lemma str_replace_none_left:
  assumes "old \<noteq> []" "new \<noteq> []" "hd new \<notin> set (tl old)" "last new \<notin> set (butlast old)"
    "\<not> sublist old new"
  shows "\<not> sublist old (str_replace old new s)"
proof (induction "length s" arbitrary: s rule: less_induct)
  case less
  show ?case
  proof (cases s)
    case Nil
    then show ?thesis using assms(1) by (simp add: str_replace_Nil)
  next
    case (Cons x cs)
    show ?thesis
    proof (cases "prefix old s")
      case True
      then obtain r where r: "s = old @ r" by (auto simp: prefix_def)
      have e: "str_replace old new s = new @ str_replace old new r"
        unfolding r using assms(1) by (rule str_replace_match)
      have "length r < length s" using r assms(1) by simp
      from less[OF this] have ih: "\<not> sublist old (str_replace old new r)" .
      have "\<not> (\<exists>xs1 xs2. old = xs1 @ xs2 \<and> suffix xs1 new \<and> prefix xs2 (str_replace old new r))"
      proof
        assume "\<exists>xs1 xs2. old = xs1 @ xs2 \<and> suffix xs1 new \<and> prefix xs2 (str_replace old new r)"
        then obtain xs1 xs2 where x: "old = xs1 @ xs2" "suffix xs1 new"
          "prefix xs2 (str_replace old new r)" by blast
        show False
        proof (cases "xs1 = []")
          case True
          with x ih show False by auto
        next
          case n1: False
          show False
          proof (cases "xs2 = []")
            case True
            with x assms(5) show False by auto
          next
            case False
            from x(2) n1 have "last xs1 = last new" by (auto simp: suffix_def)
            moreover have "last xs1 \<in> set (butlast old)"
              using n1 False by (simp add: x(1) butlast_append)
            ultimately show False using assms(4) by simp
          qed
        qed
      qed
      with ih assms(5) show ?thesis by (simp add: e sublist_append)
    next
      case False
      then have e: "str_replace old new s = x # str_replace old new cs"
        by (simp add: Cons str_replace_copy)
      have "length cs < length s" by (simp add: Cons)
      from less[OF this] have ih: "\<not> sublist old (str_replace old new cs)" .
      have "\<not> prefix old (x # str_replace old new cs)"
      proof
        assume p: "prefix old (x # str_replace old new cs)"
        obtain y d' where d: "old = y # d'" using assms(1) by (cases old) auto
        define t where "t = str_replace old new cs"
        from p have "prefix old (x # t)" by (simp add: t_def)
        then have "prefix (y # d') (x # t)" by (simp only: d)
        then have yx: "y = x" and "prefix d' t" by simp_all
        then have pd: "prefix d' (str_replace old new cs)" by (simp add: t_def)
        have "hd new \<notin> set d'" using assms(3) d by simp
        then have "prefix d' cs"
          using pd by (rule str_replace_prefix_back[OF assms(2,1)])
        with yx have "prefix old s" by (simp add: d Cons)
        with False show False by simp
      qed
      with ih show ?thesis by (simp add: e sublist_Cons_right)
    qed
  qed
qed

lemma str_replace_keep_tail:
  assumes "old \<noteq> []" "t \<noteq> [] \<longrightarrow> hd t \<notin> set (tl old)" "\<not> sublist old t"
  shows "str_replace old new (w @ t) = str_replace old new w @ t"
proof (induction "length w" arbitrary: w rule: less_induct)
  case less
  show ?case
  proof (cases w)
    case Nil
    then show ?thesis using assms(3) by (simp add: str_replace_Nil str_replace_id)
  next
    case (Cons x w')
    show ?thesis
    proof (cases "prefix old w")
      case True
      then obtain w2 where w2: "w = old @ w2" by (auto simp: prefix_def)
      have "length w2 < length w" using w2 assms(1) by simp
      from less[OF this] show ?thesis
        using assms(1) by (simp add: w2 str_replace_match)
    next
      case False
      have "\<not> prefix old (w @ t)"
      proof
        assume "prefix old (w @ t)"
        with False obtain us where us: "old = w @ us" "prefix us t"
          by (auto simp: prefix_append)
        with False have "us \<noteq> []" by auto
        then obtain z us' where z: "us = z # us'" by (cases us) auto
        with us(2) have "t \<noteq> []" "hd t = z" by (auto simp: prefix_def)
        moreover have "z \<in> set (tl old)" by (simp add: us(1) z Cons)
        ultimately show False using assms(2) by simp
      qed
      then have 1: "str_replace old new (w @ t) = x # str_replace old new (w' @ t)"
        by (simp add: Cons str_replace_copy)
      have 2: "str_replace old new w = x # str_replace old new w'"
        using False by (simp add: Cons str_replace_copy)
      have "length w' < length w" by (simp add: Cons)
      from less[OF this] show ?thesis by (simp add: 1 2)
    qed
  qed
qed

section \<open>The fix-up of the links\<close>

lemma dot_md_eq: "dot_md = [46, 109, 100, 34]" by (simp add: dot_md_def u_def)
lemma dot_html_eq: "dot_html = [46, 104, 116, 109, 108, 34]" by (simp add: dot_html_def u_def)

lemma fix_append:
  "str_replace dot_md dot_html (a @ dot_md @ b)
     = str_replace dot_md dot_html a @ dot_html @ str_replace dot_md dot_html b"
  by (rule str_replace_append) (simp_all add: dot_md_eq)

lemma fix_pieces:
  "(\<And>q. q \<in> set ps \<Longrightarrow> \<not> sublist dot_md q) \<Longrightarrow>
   str_replace dot_md dot_html (join_str dot_md ps) = join_str dot_html ps"
  by (rule str_replace_pieces) (simp_all add: dot_md_eq)

lemma fix_none_left: "\<not> sublist dot_md (str_replace dot_md dot_html s)"
  by (rule str_replace_none_left) (simp_all add: dot_md_eq dot_html_eq sublist_Cons_right)

lemma sublist_before:
  assumes "old \<noteq> []" "last old \<notin> set t" "sublist old (x @ t)"
  shows "sublist old x"
proof -
  from assms(3) consider "sublist old x" | "sublist old t"
    | xs1 xs2 where "old = xs1 @ xs2" "suffix xs1 x" "prefix xs2 t"
    by (auto simp: sublist_append)
  then show ?thesis
  proof cases
    case 1 then show ?thesis .
  next
    case 2
    then have "set old \<subseteq> set t" by (rule set_mono_sublist)
    with assms(1,2) show ?thesis using last_in_set by blast
  next
    case 3
    show ?thesis
    proof (cases "xs2 = []")
      case True
      with 3 show ?thesis by auto
    next
      case False
      then have "last old = last xs2" by (simp add: 3(1))
      moreover have "last xs2 \<in> set t"
        using False 3(3) by (meson last_in_set set_mono_prefix subsetD)
      ultimately show ?thesis using assms(2) by simp
    qed
  qed
qed

lemma format_template_split:
  "format HTML_TEMPLATE t c fl
     = (template_text_0 @ t @ template_text_1 @ fl Index @ template_text_2 @ fl Readme
        @ template_text_3 @ fl Quick @ template_text_4 @ fl Api @ template_text_5
        @ fl Complete @ template_text_6 @ fl Tier1 @ template_text_7 @ fl Tier2
        @ template_text_8 @ fl Tier3 @ template_text_9 @ fl Achievement @ template_text_10)
       @ c @ template_text_11"
  by (simp add: format_def HTML_TEMPLATE_def)

lemma substituted_split:
  "\<exists>pre post. substituted db f md = pre @ convert_markdown_to_html db md @ post"
  unfolding substituted_def Let_def format_template_split by blast

lemma link_fixed:
  assumes "34 \<notin> set foo"
  shows "str_replace dot_md dot_html (w @ u ''href=\"'' @ foo @ dot_md @ b)
           = str_replace dot_md dot_html w @ u ''href=\"'' @ foo @ dot_html
             @ str_replace dot_md dot_html b"
proof -
  let ?t = "u ''href=\"'' @ foo"
  have nt: "\<not> sublist dot_md ?t"
  proof
    assume "sublist dot_md ?t"
    moreover have "dot_md \<noteq> []" "last dot_md \<notin> set foo"
      using assms by (simp_all add: dot_md_eq)
    ultimately have "sublist dot_md (u ''href=\"'')"
      using sublist_before[of dot_md foo "u ''href=\"''"] by blast
    then show False by (simp add: dot_md_eq u_def sublist_Cons_right)
  qed
  have "str_replace dot_md dot_html ((w @ ?t) @ dot_md @ b)
          = str_replace dot_md dot_html (w @ ?t) @ dot_html @ str_replace dot_md dot_html b"
    by (rule fix_append)
  moreover have "dot_md \<noteq> []" "?t \<noteq> [] \<longrightarrow> hd ?t \<notin> set (tl dot_md)"
    by (simp_all add: dot_md_eq u_def)
  then have "str_replace dot_md dot_html (w @ ?t) = str_replace dot_md dot_html w @ ?t"
    using nt by (rule str_replace_keep_tail)
  ultimately show ?thesis by simp
qed

text \<open>
  C10. The fix-up is \<open>final_html.replace('.md"', '.html"')\<close> on the whole document
  that the template substitution gives. Replacing is global: a document written as pieces
  without \<open>.md"\<close>, joined by \<open>.md"\<close>, becomes the same pieces joined by \<open>.html"\<close>,
  wherever the occurrences lie (the last conjunct has one in visible text and one in an
  inline code span), and no \<open>.md"\<close> is left in the final document.
\<close>

theorem fixup_replaces_every_occurrence:
  "final_html db md_file markdown_content
     = str_replace dot_md dot_html (substituted db md_file markdown_content)
   \<and> (\<forall>ps. (\<forall>p\<in>set ps. \<not> sublist dot_md p) \<longrightarrow>
          str_replace dot_md dot_html (join_str dot_md ps) = join_str dot_html ps)
   \<and> \<not> sublist dot_md (final_html db md_file markdown_content)
   \<and> str_replace dot_md dot_html (u ''<p>open \"a.md\" or <code>b.md\"</code></p>'')
        = u ''<p>open \"a.html\" or <code>b.html\"</code></p>''"
proof (intro conjI allI impI)
  show "final_html db md_file markdown_content
          = str_replace dot_md dot_html (substituted db md_file markdown_content)"
    by (simp add: final_html_def)
next
  fix ps assume "\<forall>p\<in>set ps. \<not> sublist dot_md p"
  then show "str_replace dot_md dot_html (join_str dot_md ps) = join_str dot_html ps"
    by (intro fix_pieces) simp
next
  show "\<not> sublist dot_md (final_html db md_file markdown_content)"
    unfolding final_html_def by (rule fix_none_left)
next
  show "str_replace dot_md dot_html (u ''<p>open \"a.md\" or <code>b.md\"</code></p>'')
          = u ''<p>open \"a.html\" or <code>b.html\"</code></p>''"
    by (simp add: str_replace_def match_lit_def strip_prefix_def dot_md_eq dot_html_eq u_def)
qed

theorem fixup_replaces_every_occurrence_witness:
  "\<not> sublist dot_md (u ''<code>a'') \<and> \<not> sublist dot_md (u ''</code> b'')
   \<and> \<not> sublist dot_md (u ''!'')
   \<and> str_replace dot_md dot_html (join_str dot_md [u ''<code>a'', u ''</code> b'', u ''!''])
        = join_str dot_html [u ''<code>a'', u ''</code> b'', u ''!'']"
proof -
  have h1: "\<not> sublist dot_md (u ''<code>a'')" and h2: "\<not> sublist dot_md (u ''</code> b'')"
    and h3: "\<not> sublist dot_md (u ''!'')"
    by (simp_all add: dot_md_eq u_def sublist_Cons_right)
  then have h: "\<forall>p\<in>set [u ''<code>a'', u ''</code> b'', u ''!'']. \<not> sublist dot_md p"
    by simp
  from fixup_replaces_every_occurrence
         [THEN conjunct2, THEN conjunct1, THEN spec, THEN mp, OF h] h1 h2 h3
  show ?thesis by (intro conjI)
qed

text \<open>
  C6. A link target written as a sibling \<open>.md\<close> file arrives in the fragment as
  \<open>href="Foo.md"\<close>. The fragment is placed in the template unchanged, and in the final
  document that link reads \<open>href="Foo.html"\<close>; what stands before and behind it is the
  fixed-up text before and behind. After the fix-up no \<open>.md"\<close> is left at all.
\<close>

theorem md_link_targets_become_html:
  "(convert_markdown_to_html db markdown_content = a @ u ''href=\"'' @ foo @ dot_md @ b \<longrightarrow>
    34 \<notin> set foo \<longrightarrow>
      (\<exists>pre post.
         substituted db md_file markdown_content
           = pre @ a @ u ''href=\"'' @ foo @ dot_md @ b @ post
         \<and> final_html db md_file markdown_content
           = str_replace dot_md dot_html (pre @ a) @ u ''href=\"'' @ foo @ dot_html
             @ str_replace dot_md dot_html (b @ post)))
   \<and> \<not> sublist dot_md (final_html db md_file markdown_content)"
proof (intro conjI impI)
  assume c: "convert_markdown_to_html db markdown_content = a @ u ''href=\"'' @ foo @ dot_md @ b"
    and q: "34 \<notin> set foo"
  obtain pre post where s: "substituted db md_file markdown_content
      = pre @ convert_markdown_to_html db markdown_content @ post"
    using substituted_split by blast
  have 1: "substituted db md_file markdown_content
             = pre @ a @ u ''href=\"'' @ foo @ dot_md @ b @ post"
    by (simp add: s c)
  have "final_html db md_file markdown_content
          = str_replace dot_md dot_html ((pre @ a) @ u ''href=\"'' @ foo @ dot_md @ (b @ post))"
    by (simp add: final_html_def 1)
  also have "\<dots> = str_replace dot_md dot_html (pre @ a) @ u ''href=\"'' @ foo @ dot_html
                   @ str_replace dot_md dot_html (b @ post)"
    using q by (rule link_fixed)
  finally show "\<exists>pre post.
         substituted db md_file markdown_content
           = pre @ a @ u ''href=\"'' @ foo @ dot_md @ b @ post
         \<and> final_html db md_file markdown_content
           = str_replace dot_md dot_html (pre @ a) @ u ''href=\"'' @ foo @ dot_html
             @ str_replace dot_md dot_html (b @ post)"
    using 1 by blast
next
  show "\<not> sublist dot_md (final_html db md_file markdown_content)"
    unfolding final_html_def by (rule fix_none_left)
qed

theorem md_link_targets_become_html_witness:
  "convert_markdown_to_html ascii_db (u ''[x](Foo.md)'')
     = u ''<a '' @ u ''href=\"'' @ u ''Foo'' @ dot_md @ u ''>x</a>''
   \<and> 34 \<notin> set (u ''Foo'')
   \<and> (\<exists>pre post.
         substituted ascii_db (u ''README.md'') (u ''[x](Foo.md)'')
           = pre @ u ''<a '' @ u ''href=\"'' @ u ''Foo'' @ dot_md @ u ''>x</a>'' @ post
         \<and> final_html ascii_db (u ''README.md'') (u ''[x](Foo.md)'')
           = str_replace dot_md dot_html (pre @ u ''<a '') @ u ''href=\"'' @ u ''Foo'' @ dot_html
             @ str_replace dot_md dot_html (u ''>x</a>'' @ post))"
proof -
  have h1: "convert_markdown_to_html ascii_db (u ''[x](Foo.md)'')
              = u ''<a '' @ u ''href=\"'' @ u ''Foo'' @ dot_md @ u ''>x</a>''"
    by (simp add: eval_defs dot_md_def)
  have h2: "34 \<notin> set (u ''Foo'')" by (simp add: u_def)
  from md_link_targets_become_html [THEN conjunct1, rule_format, OF h1 h2] h1 h2
  show ?thesis by (intro conjI)
qed

section \<open>The title of a page\<close>

lemma re_search_skip:
  "(\<And>a'. a' \<noteq> [] \<Longrightarrow> suffix a' a \<Longrightarrow> m (a' @ r) = None) \<Longrightarrow>
   re_search m (a @ r) = re_search m r"
proof (induction a)
  case Nil show ?case by simp
next
  case (Cons x a)
  have "m ((x # a) @ r) = None" using Cons.prems[of "x # a"] by simp
  moreover have "re_search m (a @ r) = re_search m r"
    using Cons.prems by (intro Cons.IH) (auto simp: suffix_Cons)
  ultimately show ?case by simp
qed

lemma re_search_hit: "m s = Some x \<Longrightarrow> re_search m s = Some x"
  by (cases s) auto

lemma re_search_none:
  "(\<And>a'. suffix a' s \<Longrightarrow> m a' = None) \<Longrightarrow> re_search m s = None"
proof (induction s)
  case Nil then show ?case by simp
next
  case (Cons x s)
  have "m (x # s) = None" using Cons.prems[of "x # s"] by simp
  moreover have "re_search m s = None"
    using Cons.prems by (intro Cons.IH) (auto simp: suffix_Cons)
  ultimately show ?case by simp
qed

lemma not_prefix_before:
  assumes "d \<noteq> []" "hd d \<notin> set (tl d)" "\<not> sublist d a" "a' \<noteq> []" "suffix a' a"
  shows "\<not> prefix d (a' @ d @ r)"
proof
  assume "prefix d (a' @ d @ r)"
  then have "prefix d a'" using assms(1,2,4) no_span[of a' d r] by blast
  then have "sublist d a" using assms(5)
    by (meson prefix_imp_sublist suffix_imp_sublist sublist_order.order_trans)
  with assms(3) show False by simp
qed

lemma lazy_dot_at:
  assumes "d \<noteq> []" "hd d \<notin> set (tl d)"
  shows "nl \<notin> set t \<Longrightarrow> \<not> sublist d t \<Longrightarrow> lazy_dot d (t @ d @ b) = Some (t, b)"
proof (induction t)
  case Nil
  show ?case using assms(1) by (cases d) auto
next
  case (Cons x t)
  have np: "\<not> prefix d ((x # t) @ d @ b)"
    using assms Cons.prems(2) by (intro not_prefix_before[of d "x # t"]) auto
  have "\<not> sublist d t" using Cons.prems(2) by (auto simp: sublist_Cons_right)
  with Cons have "lazy_dot d (t @ d @ b) = Some (t, b)" by simp
  with np Cons.prems(1) show ?case by simp
qed

lemma lazy_dot1_at:
  assumes "d \<noteq> []" "hd d \<notin> set (tl d)" "t \<noteq> []" "nl \<notin> set t" "\<not> sublist d t"
  shows "lazy_dot1 d (t @ d @ b) = Some (t, b)"
proof -
  obtain x t' where t: "t = x # t'" using assms(3) by (cases t) auto
  have "\<not> sublist d t'" using assms(5) by (auto simp: t sublist_Cons_right)
  then have "lazy_dot d (t' @ d @ b) = Some (t', b)"
    using assms(4) by (intro lazy_dot_at[OF assms(1,2)]) (auto simp: t)
  then show ?thesis using assms(4) by (simp add: lazy_dot1_def t)
qed

lemma h1_open: "u ''<h1>'' = [60, 104, 49, 62]" by (simp add: u_def)
lemma h1_close: "u ''</h1>'' = [60, 47, 104, 49, 62]" by (simp add: u_def)

lemma search_h1_first:
  assumes "\<not> sublist (u ''<h1>'') a" "t \<noteq> []" "nl \<notin> set t" "\<not> sublist (u ''</h1>'') t"
  shows "re_search match_h1 (a @ u ''<h1>'' @ t @ u ''</h1>'' @ b) = Some (t, b)"
proof -
  let ?R = "u ''<h1>'' @ t @ u ''</h1>'' @ b"
  have "match_h1 (a' @ ?R) = None" if "a' \<noteq> []" "suffix a' a" for a'
  proof -
    have "\<not> prefix (u ''<h1>'') (a' @ u ''<h1>'' @ t @ u ''</h1>'' @ b)"
      using assms(1) that by (intro not_prefix_before[of _ a]) (simp_all add: h1_open)
    then show ?thesis by (simp add: match_h1_def strip_prefix_def)
  qed
  then have "re_search match_h1 (a @ ?R) = re_search match_h1 ?R"
    by (intro re_search_skip)
  moreover have "lazy_dot1 (u ''</h1>'') (t @ u ''</h1>'' @ b) = Some (t, b)"
    using assms(2,3,4) by (intro lazy_dot1_at) (simp_all add: h1_close)
  then have "match_h1 ?R = Some (t, b)"
    by (simp add: match_h1_def strip_prefix_def)
  then have "re_search match_h1 ?R = Some (t, b)" by (rule re_search_hit)
  ultimately show ?thesis by simp
qed

lemma search_h1_none:
  assumes "\<not> sublist (u ''<h1>'') html"
  shows "re_search match_h1 html = None"
proof (rule re_search_none)
  fix a' assume "suffix a' html"
  with assms have "\<not> prefix (u ''<h1>'') a'"
    by (meson prefix_imp_sublist suffix_imp_sublist sublist_order.order_trans)
  then show "match_h1 a' = None" by (simp add: match_h1_def strip_prefix_def)
qed

lemma takeWhile_until: "c \<notin> set xs \<Longrightarrow> takeWhile (\<lambda>x. x \<noteq> c) (xs @ c # r) = xs"
  by (induction xs) auto

lemma dropWhile_until: "c \<notin> set xs \<Longrightarrow> dropWhile (\<lambda>x. x \<noteq> c) (xs @ c # r) = c # r"
  by (induction xs) auto

lemma match_tag_none: "s = [] \<or> hd s \<noteq> 60 \<Longrightarrow> match_tag s = None"
  by (cases s) (auto simp: match_tag_def strip_prefix_def u_def)

lemma strip_tags_plain: "60 \<notin> set x \<Longrightarrow> strip_tags x = x"
  unfolding strip_tags_def
proof (rule re_sub_id)
  fix a' assume "60 \<notin> set x" "a' \<noteq> []" "suffix a' x"
  then have "hd a' \<noteq> 60" by (metis hd_in_set set_mono_suffix subsetD)
  then show "match_tag a' = None" by (simp add: match_tag_none)
qed

lemma strip_tags_tag:
  assumes "60 \<notin> set x" "body \<noteq> []" "62 \<notin> set body"
  shows "strip_tags (x @ [60] @ body @ [62] @ rest) = x @ strip_tags rest"
proof -
  let ?R = "[60] @ body @ [62] @ rest"
  have "match_tag (a' @ ?R) = None" if "a' \<noteq> []" "suffix a' x" for a'
  proof -
    have "hd a' \<noteq> 60" using that assms(1) by (metis hd_in_set set_mono_suffix subsetD)
    then have "hd (a' @ ?R) \<noteq> 60" using that(1) by simp
    then show ?thesis by (intro match_tag_none) simp
  qed
  then have 1: "re_sub match_tag (x @ ?R) = x @ re_sub match_tag ?R"
    by (intro re_sub_skip)
  have "dropWhile (\<lambda>c. c \<noteq> 62) (body @ [62] @ rest) = 62 # rest"
    and "takeWhile (\<lambda>c. c \<noteq> 62) (body @ [62] @ rest) = body"
    using assms(3) by (simp_all add: takeWhile_until dropWhile_until)
  then have "match_tag ?R = Some ([], rest)"
    using assms(2) by (simp add: match_tag_def strip_prefix_def u_def)
  then have 2: "re_sub match_tag ?R = [] @ re_sub match_tag rest"
    by (rule re_sub_Some) simp
  show ?thesis unfolding strip_tags_def 1 2 by simp
qed

lemma lazy_dot_SomeD:
  "lazy_dot d s = Some (t, b) \<Longrightarrow>
   s = t @ d @ b \<and> nl \<notin> set t \<and> (\<forall>t' b'. s = t' @ d @ b' \<longrightarrow> length t \<le> length t')"
proof (induction s arbitrary: t)
  case Nil
  then show ?case by (auto split: if_splits)
next
  case (Cons c cs)
  show ?case
  proof (cases "prefix d (c # cs)")
    case True
    with Cons.prems show ?thesis by (auto simp: prefix_def)
  next
    case False
    with Cons.prems obtain t0 where t0: "c \<noteq> nl" "lazy_dot d cs = Some (t0, b)" "t = c # t0"
      by (auto split: if_splits)
    from Cons.IH[OF t0(2)] have ih: "cs = t0 @ d @ b" "nl \<notin> set t0"
      "\<forall>t' b'. cs = t' @ d @ b' \<longrightarrow> length t0 \<le> length t'" by auto
    have "length t \<le> length t'" if "c # cs = t' @ d @ b'" for t' b'
    proof (cases t')
      case Nil
      with that False show ?thesis by (auto simp: prefix_def)
    next
      case (Cons x t'')
      with that have "cs = t'' @ d @ b'" by simp
      with ih(3) have "length t0 \<le> length t''" by blast
      then show ?thesis by (simp add: t0(3) Cons)
    qed
    with ih t0 show ?thesis by auto
  qed
qed

lemma lazy_dot_NoneD:
  "lazy_dot d s = None \<Longrightarrow> s = t @ d @ b \<Longrightarrow> nl \<in> set t"
proof (induction s arbitrary: t)
  case Nil
  then show ?case by (auto split: if_splits)
next
  case (Cons c cs)
  from Cons.prems(1) have np: "\<not> prefix d (c # cs)" by (auto split: if_splits)
  show ?case
  proof (cases t)
    case Nil
    with Cons.prems(2) np show ?thesis by (auto simp: prefix_def)
  next
    case (Cons x t')
    with Cons.prems(2) have e: "x = c" "cs = t' @ d @ b" by auto
    show ?thesis
    proof (cases "c = nl")
      case True
      then show ?thesis by (simp add: Cons e)
    next
      case False
      with Cons.prems(1) np have "lazy_dot d cs = None" by (auto split: if_splits)
      from Cons.IH[OF this e(2)] show ?thesis by (simp add: Cons)
    qed
  qed
qed

lemma lazy_dot1_SomeD:
  assumes "lazy_dot1 d s = Some (t, b)"
  shows "s = t @ d @ b \<and> t \<noteq> [] \<and> nl \<notin> set t
         \<and> (\<forall>t' b'. s = t' @ d @ b' \<and> t' \<noteq> [] \<longrightarrow> length t \<le> length t')"
proof -
  from assms obtain c cs t0 where s: "s = c # cs" "c \<noteq> nl" "lazy_dot d cs = Some (t0, b)" "t = c # t0"
    by (auto simp: lazy_dot1_def split: list.splits if_splits)
  from lazy_dot_SomeD[OF s(3)] have ih: "cs = t0 @ d @ b" "nl \<notin> set t0"
    "\<forall>t' b'. cs = t' @ d @ b' \<longrightarrow> length t0 \<le> length t'" by auto
  have "length t \<le> length t'" if "s = t' @ d @ b'" "t' \<noteq> []" for t' b'
  proof -
    from that obtain x t'' where t': "t' = x # t''" by (cases t') auto
    with that s(1) have "cs = t'' @ d @ b'" by simp
    with ih(3) have "length t0 \<le> length t''" by blast
    then show ?thesis by (simp add: s(4) t')
  qed
  with ih s show ?thesis by auto
qed

lemma lazy_dot1_NoneD:
  assumes "lazy_dot1 d s = None" "s = t @ d @ b" "t \<noteq> []"
  shows "nl \<in> set t"
proof -
  from assms(3) obtain x t' where t: "t = x # t'" by (cases t) auto
  show ?thesis
  proof (cases "x = nl")
    case True then show ?thesis by (simp add: t)
  next
    case False
    with assms(1,2) have "lazy_dot d (t' @ d @ b) = None"
      by (auto simp: lazy_dot1_def t)
    from lazy_dot_NoneD[OF this refl] show ?thesis by (simp add: t)
  qed
qed

lemma match_h1_SomeD:
  assumes "match_h1 r = Some (t, b)"
  shows "r = u ''<h1>'' @ t @ u ''</h1>'' @ b \<and> t \<noteq> [] \<and> nl \<notin> set t
         \<and> (\<forall>t' b'. r = u ''<h1>'' @ t' @ u ''</h1>'' @ b' \<and> t' \<noteq> [] \<longrightarrow> length t \<le> length t')"
proof -
  from assms obtain r' where r: "r = u ''<h1>'' @ r'" "lazy_dot1 (u ''</h1>'') r' = Some (t, b)"
    by (auto simp: match_h1_def strip_prefix_def prefix_def split: if_splits)
  from lazy_dot1_SomeD[OF r(2)] r(1) show ?thesis by auto
qed

lemma match_h1_NoneD:
  assumes "match_h1 (u ''<h1>'' @ t @ u ''</h1>'' @ b) = None" "t \<noteq> []"
  shows "nl \<in> set t"
proof -
  from assms(1) have "lazy_dot1 (u ''</h1>'') (t @ u ''</h1>'' @ b) = None"
    by (simp add: match_h1_def strip_prefix_def)
  from lazy_dot1_NoneD[OF this refl assms(2)] show ?thesis .
qed

lemma re_search_SomeD:
  "re_search m s = Some x \<Longrightarrow>
   \<exists>a r. s = a @ r \<and> m r = Some x
         \<and> (\<forall>a1 r1. s = a1 @ r1 \<and> length a1 < length a \<longrightarrow> m r1 = None)"
proof (induction s)
  case Nil
  then have "m [] = Some x" by simp
  then show ?case by (intro exI[of _ "[]"]) simp
next
  case (Cons c cs)
  show ?case
  proof (cases "m (c # cs)")
    case (Some y)
    with Cons.prems have "m (c # cs) = Some x" by simp
    then show ?thesis by (intro exI[of _ "[]"] exI[of _ "c # cs"]) simp
  next
    case None
    with Cons.prems have "re_search m cs = Some x" by simp
    from Cons.IH[OF this] obtain a r where ar: "cs = a @ r" "m r = Some x"
      "\<forall>a1 r1. cs = a1 @ r1 \<and> length a1 < length a \<longrightarrow> m r1 = None" by blast
    have "m r1 = None" if "c # cs = a1 @ r1" "length a1 < length (c # a)" for a1 r1
    proof (cases a1)
      case Nil
      with that None show ?thesis by simp
    next
      case (Cons y a2)
      with that have "cs = a2 @ r1" "length a2 < length a" by auto
      with ar(3) show ?thesis by blast
    qed
    with ar(1,2) show ?thesis
      by (intro exI[of _ "c # a"] exI[of _ r]) auto
  qed
qed

lemma re_search_NoneD: "re_search m s = None \<Longrightarrow> s = a @ r \<Longrightarrow> m r = None"
proof (induction s arbitrary: a)
  case Nil then show ?case by simp
next
  case (Cons c cs)
  from Cons.prems(1) have n: "m (c # cs) = None" "re_search m cs = None"
    by (auto split: option.splits)
  show ?case
  proof (cases a)
    case Nil
    with Cons.prems(2) n show ?thesis by simp
  next
    case (Cons y a')
    with Cons.prems(2) have "cs = a' @ r" by simp
    from Cons.IH[OF n(2) this] show ?thesis .
  qed
qed

lemma search_h1_first_occurrence:
  assumes "re_search match_h1 html = Some (t, b)"
  shows "\<exists>a. first_h1 html a t b"
proof -
  from re_search_SomeD[OF assms] obtain a r where ar: "html = a @ r" "match_h1 r = Some (t, b)"
    "\<forall>a1 r1. html = a1 @ r1 \<and> length a1 < length a \<longrightarrow> match_h1 r1 = None" by blast
  from match_h1_SomeD[OF ar(2)] have r: "r = u ''<h1>'' @ t @ u ''</h1>'' @ b" "t \<noteq> []"
    "nl \<notin> set t"
    "\<forall>t' b'. r = u ''<h1>'' @ t' @ u ''</h1>'' @ b' \<and> t' \<noteq> [] \<longrightarrow> length t \<le> length t'"
    by auto
  have occ: "h1_occurrence html a t b" using ar(1) r by (simp add: h1_occurrence_def)
  have "length a < length a' \<or> (length a = length a' \<and> length t \<le> length t')"
    if o: "h1_occurrence html a' t' b'" for a' t' b'
  proof -
    from o have h: "html = a' @ u ''<h1>'' @ t' @ u ''</h1>'' @ b'" "t' \<noteq> []" "nl \<notin> set t'"
      by (auto simp: h1_occurrence_def)
    have "\<not> length a' < length a"
    proof
      assume "length a' < length a"
      with ar(3) h(1) have "match_h1 (u ''<h1>'' @ t' @ u ''</h1>'' @ b') = None" by blast
      from match_h1_NoneD[OF this h(2)] h(3) show False by simp
    qed
    moreover have "length t \<le> length t'" if "length a = length a'"
    proof -
      from that ar(1) h(1) have "a = a'" "r = u ''<h1>'' @ t' @ u ''</h1>'' @ b'" by auto
      with r(4) h(2) show ?thesis by blast
    qed
    ultimately show ?thesis by linarith
  qed
  with occ show ?thesis unfolding first_h1_def by blast
qed

lemma search_h1_no_occurrence:
  assumes "re_search match_h1 html = None"
  shows "\<not> h1_occurrence html a t b"
proof
  assume "h1_occurrence html a t b"
  then have h: "html = a @ u ''<h1>'' @ t @ u ''</h1>'' @ b" "t \<noteq> []" "nl \<notin> set t"
    by (auto simp: h1_occurrence_def)
  from re_search_NoneD[OF assms h(1)] have "match_h1 (u ''<h1>'' @ t @ u ''</h1>'' @ b) = None" .
  from match_h1_NoneD[OF this h(2)] h(3) show False by simp
qed

lemma first_h1_unique:
  assumes "first_h1 html a t b" "first_h1 html a' t' b'"
  shows "t = t'"
proof -
  from assms have o: "h1_occurrence html a t b" "h1_occurrence html a' t' b'"
    by (auto simp: first_h1_def)
  from assms(1) o(2) have 1: "length a < length a' \<or> (length a = length a' \<and> length t \<le> length t')"
    unfolding first_h1_def by blast
  from assms(2) o(1) have 2: "length a' < length a \<or> (length a' = length a \<and> length t' \<le> length t)"
    unfolding first_h1_def by blast
  from 1 2 have l: "length a = length a'" "length t = length t'" by auto
  from o have "a @ u ''<h1>'' @ t @ u ''</h1>'' @ b = a' @ u ''<h1>'' @ t' @ u ''</h1>'' @ b'"
    by (auto simp: h1_occurrence_def)
  with l(1) have "t @ u ''</h1>'' @ b = t' @ u ''</h1>'' @ b'" by simp
  with l(2) show ?thesis by simp
qed

lemma page_title_first:
  assumes "first_h1 html a t b"
  shows "page_title html = strip_tags t"
proof (cases "re_search match_h1 html")
  case None
  from search_h1_no_occurrence[OF this] assms show ?thesis by (auto simp: first_h1_def)
next
  case (Some x)
  obtain t' b' where x: "x = (t', b')" by (cases x)
  from search_h1_first_occurrence[OF Some[unfolded x]] obtain a' where "first_h1 html a' t' b'" ..
  with assms have "t = t'" by (rule first_h1_unique)
  then show ?thesis by (simp add: page_title_def Some x)
qed

lemma page_title_fallback:
  assumes "\<forall>a t b. \<not> h1_occurrence html a t b"
  shows "page_title html = u ''FP-ASM''"
proof (cases "re_search match_h1 html")
  case None
  moreover have "strip_tags (u ''FP-ASM'') = u ''FP-ASM''"
    by (intro strip_tags_plain) (simp add: u_def)
  ultimately show ?thesis by (simp add: page_title_def)
next
  case (Some x)
  obtain t' b' where x: "x = (t', b')" by (cases x)
  from search_h1_first_occurrence[OF Some[unfolded x]] assms show ?thesis
    by (auto simp: first_h1_def)
qed

lemma first_or_none:
  "(\<exists>a t b. first_h1 html a t b) \<or> (\<forall>a t b. \<not> h1_occurrence html a t b)"
proof (cases "re_search match_h1 html")
  case None
  from search_h1_no_occurrence[OF this] show ?thesis by blast
next
  case (Some x)
  obtain t' b' where x: "x = (t', b')" by (cases x)
  from search_h1_first_occurrence[OF Some[unfolded x]] show ?thesis by blast
qed

lemma str_replace_cut:
  assumes "old \<noteq> []"
    "(w \<noteq> [] \<longrightarrow> last w \<notin> set (butlast old)) \<or> (t \<noteq> [] \<longrightarrow> hd t \<notin> set (tl old))"
  shows "str_replace old new (w @ t) = str_replace old new w @ str_replace old new t"
  using assms(2)
proof (induction "length w" arbitrary: w rule: less_induct)
  case less
  show ?case
  proof (cases w)
    case Nil
    then show ?thesis by (simp add: str_replace_Nil)
  next
    case (Cons x w')
    show ?thesis
    proof (cases "prefix old w")
      case True
      then obtain w2 where w2: "w = old @ w2" by (auto simp: prefix_def)
      have l: "length w2 < length w" using w2 assms(1) by simp
      have "(w2 \<noteq> [] \<longrightarrow> last w2 \<notin> set (butlast old)) \<or> (t \<noteq> [] \<longrightarrow> hd t \<notin> set (tl old))"
        using less.prems by (auto simp: w2)
      from less.hyps[OF l this] show ?thesis
        using assms(1) by (simp add: w2 str_replace_match)
    next
      case False
      have "\<not> prefix old (w @ t)"
      proof
        assume "prefix old (w @ t)"
        with False obtain us where us: "old = w @ us" "prefix us t"
          by (auto simp: prefix_append)
        with False have ne: "us \<noteq> []" by auto
        then obtain z us' where z: "us = z # us'" by (cases us) auto
        with us(2) have "t \<noteq> []" "hd t = z" by (auto simp: prefix_def)
        moreover have "z \<in> set (tl old)" by (simp add: us(1) z Cons)
        moreover have "last w \<in> set (butlast old)"
          using ne by (simp add: us(1) butlast_append Cons)
        ultimately show False using less.prems Cons by auto
      qed
      then have 1: "str_replace old new (w @ t) = x # str_replace old new (w' @ t)"
        by (simp add: Cons str_replace_copy)
      have 2: "str_replace old new w = x # str_replace old new w'"
        using False by (simp add: Cons str_replace_copy)
      have l: "length w' < length w" by (simp add: Cons)
      have "(w' \<noteq> [] \<longrightarrow> last w' \<notin> set (butlast old)) \<or> (t \<noteq> [] \<longrightarrow> hd t \<notin> set (tl old))"
        using less.prems by (auto simp: Cons)
      from less.hyps[OF l this] show ?thesis by (simp add: 1 2)
    qed
  qed
qed

lemma title_open: "suffix (u ''<title>'') template_text_0"
  by (simp add: template_text_0_def u_def suffix_to_prefix)

lemma title_open_plain: "\<not> sublist dot_md template_text_0"
  by (simp add: template_text_0_def u_def dot_md_eq sublist_Cons_right)

lemma title_close: "\<exists>r. template_text_1 = u '' - FP-ASM Library</title>'' @ r"
  unfolding template_text_1_def by (simp only: join_with.simps) blast

lemma final_html_title:
  "\<exists>rest. final_html db md_file markdown_content
      = template_text_0
        @ str_replace dot_md dot_html (page_title (convert_markdown_to_html db markdown_content))
        @ u '' - FP-ASM Library</title>'' @ rest"
proof -
  let ?title = "page_title (convert_markdown_to_html db markdown_content)"
  let ?L = "u '' - FP-ASM Library</title>''"
  obtain r where r: "template_text_1 = ?L @ r" using title_close by blast
  obtain p where p: "template_text_0 = p @ u ''<title>''"
    using title_open by (auto simp: suffix_def)
  have "\<exists>X. substituted db md_file markdown_content = template_text_0 @ ?title @ ?L @ X"
    by (simp add: substituted_def Let_def format_def HTML_TEMPLATE_def r)
  then obtain X where X: "substituted db md_file markdown_content
      = template_text_0 @ ?title @ ?L @ X" ..
  have l0: "last template_text_0 \<notin> set (butlast dot_md)"
    by (simp add: p dot_md_eq u_def)
  have 1: "str_replace dot_md dot_html (template_text_0 @ ?title @ ?L @ X)
             = str_replace dot_md dot_html template_text_0
               @ str_replace dot_md dot_html (?title @ ?L @ X)"
    using l0 by (intro str_replace_cut) (simp_all add: dot_md_eq)
  have 2: "str_replace dot_md dot_html (?title @ ?L @ X)
             = str_replace dot_md dot_html ?title @ str_replace dot_md dot_html (?L @ X)"
    by (intro str_replace_cut) (simp_all add: dot_md_eq u_def)
  have 3: "str_replace dot_md dot_html (?L @ X)
             = str_replace dot_md dot_html ?L @ str_replace dot_md dot_html X"
    by (intro str_replace_cut) (simp_all add: dot_md_eq u_def)
  have 4: "str_replace dot_md dot_html template_text_0 = template_text_0"
    using title_open_plain by (rule str_replace_id)
  have 5: "str_replace dot_md dot_html ?L = ?L"
    by (intro str_replace_id) (simp add: dot_md_eq u_def sublist_Cons_right)
  show ?thesis
    unfolding final_html_def X 1 2 3 4 5 by simp
qed

text \<open>
  C8, as the spec states it, fails on a heading that holds \<open>.md"\<close>: the title taken from
  the fragment is \<open>see "a.md"\<close>, but the fix-up runs over the whole document and the page
  that is written has the title \<open>see "a.html"\<close>.
\<close>

theorem title_changed_by_fixup:
  "page_title (convert_markdown_to_html ascii_db (u ''# see \"a.md\"'')) = u ''see \"a.md\"''
   \<and> prefix (template_text_0 @ u ''see \"a.html\" - FP-ASM Library</title>'')
        (final_html ascii_db (u ''README.md'') (u ''# see \"a.md\"''))
   \<and> \<not> prefix (template_text_0 @ u ''see \"a.md\"'')
        (final_html ascii_db (u ''README.md'') (u ''# see \"a.md\"''))"
proof -
  have c: "convert_markdown_to_html ascii_db (u ''# see \"a.md\"'') = u ''<h1>see \"a.md\"</h1>''"
    by (simp add: eval_defs)
  have t: "page_title (convert_markdown_to_html ascii_db (u ''# see \"a.md\"'')) = u ''see \"a.md\"''"
    unfolding c
    by (simp add: page_title_def match_h1_def lazy_dot1_def strip_tags_def match_tag_def
          strip_prefix_def u_def)
  have f: "str_replace dot_md dot_html (u ''see \"a.md\"'') = u ''see \"a.html\"''"
    by (simp add: str_replace_def match_lit_def strip_prefix_def dot_md_eq dot_html_eq u_def)
  obtain rest where "final_html ascii_db (u ''README.md'') (u ''# see \"a.md\"'')
      = template_text_0 @ u ''see \"a.html\"'' @ u '' - FP-ASM Library</title>'' @ rest"
    using final_html_title[of ascii_db "u ''README.md''" "u ''# see \"a.md\"''"]
    unfolding t f by blast
  then have e: "final_html ascii_db (u ''README.md'') (u ''# see \"a.md\"'')
      = template_text_0 @ u ''see \"a.html\"'' @ u '' - FP-ASM Library</title>'' @ rest" .
  have p1: "prefix (template_text_0 @ u ''see \"a.html\" - FP-ASM Library</title>'')
        (final_html ascii_db (u ''README.md'') (u ''# see \"a.md\"''))"
    unfolding e by (simp add: u_def)
  have p2: "\<not> prefix (template_text_0 @ u ''see \"a.md\"'')
        (final_html ascii_db (u ''README.md'') (u ''# see \"a.md\"''))"
    unfolding e by (simp add: u_def)
  from t p1 p2 show ?thesis by (intro conjI)
qed

text \<open>
  C8, amended. The title put into the template is \<open>page_title\<close> of the fragment: the
  text of the first \<open><h1>...</h1>\<close> occurrence (leftmost start, shortest non-empty text on
  one line) with the tags stripped, and \<open>FP-ASM\<close> when the fragment has no such
  occurrence; every fragment is in one of the two cases. Stripping removes every
  \<open><...>\<close> and keeps the text outside. In the page that is written the title stands
  between the opening text of the template, which ends with \<open><title>\<close>, and
  \<open> - FP-ASM Library</title>\<close>, with every \<open>.md"\<close> in it replaced by \<open>.html"\<close>.
\<close>

theorem title_is_first_h1_then_fixed_up:
  "(\<exists>rest. final_html db md_file markdown_content
       = template_text_0
         @ str_replace dot_md dot_html (page_title (convert_markdown_to_html db markdown_content))
         @ u '' - FP-ASM Library</title>'' @ rest)
   \<and> suffix (u ''<title>'') template_text_0
   \<and> (\<forall>html a t b. first_h1 html a t b \<longrightarrow> page_title html = strip_tags t)
   \<and> (\<forall>html. (\<forall>a t b. \<not> h1_occurrence html a t b) \<longrightarrow> page_title html = u ''FP-ASM'')
   \<and> (\<forall>html. (\<exists>a t b. first_h1 html a t b) \<or> (\<forall>a t b. \<not> h1_occurrence html a t b))
   \<and> (\<forall>x body rest. 60 \<notin> set x \<longrightarrow> body \<noteq> [] \<longrightarrow> 62 \<notin> set body \<longrightarrow>
          strip_tags (x @ [60] @ body @ [62] @ rest) = x @ strip_tags rest)
   \<and> (\<forall>x. 60 \<notin> set x \<longrightarrow> strip_tags x = x)
   \<and> page_title (u ''<p>Use <code><h1></code> tags</p>\<newline><h1>Real</h1>'') = u ''Real''
   \<and> page_title (u ''<h1></h1><h1>c</h1>'') = u ''c''
   \<and> page_title (u ''x<h1>abc'') = u ''FP-ASM''
   \<and> page_title (convert_markdown_to_html db (u ''intro\<newline># The **big** title\<newline>text''))
        = u ''The big title''"
proof (intro conjI allI impI)
  show "\<exists>rest. final_html db md_file markdown_content
       = template_text_0
         @ str_replace dot_md dot_html (page_title (convert_markdown_to_html db markdown_content))
         @ u '' - FP-ASM Library</title>'' @ rest"
    by (rule final_html_title)
next
  show "suffix (u ''<title>'') template_text_0" by (rule title_open)
next
  fix html a t b assume "first_h1 html a t b"
  then show "page_title html = strip_tags t" by (rule page_title_first)
next
  fix html assume "\<forall>a t b. \<not> h1_occurrence html a t b"
  then show "page_title html = u ''FP-ASM''" by (rule page_title_fallback)
next
  fix html
  show "(\<exists>a t b. first_h1 html a t b) \<or> (\<forall>a t b. \<not> h1_occurrence html a t b)"
    by (rule first_or_none)
next
  fix x body rest :: ustr
  assume "60 \<notin> set x" "body \<noteq> []" "62 \<notin> set body"
  then show "strip_tags (x @ [60] @ body @ [62] @ rest) = x @ strip_tags rest"
    by (rule strip_tags_tag)
next
  fix x :: ustr assume "60 \<notin> set x"
  then show "strip_tags x = x" by (rule strip_tags_plain)
next
  show "page_title (u ''<p>Use <code><h1></code> tags</p>\<newline><h1>Real</h1>'') = u ''Real''"
    by (simp add: page_title_def match_h1_def lazy_dot1_def strip_tags_def match_tag_def
          strip_prefix_def u_def)
next
  show "page_title (u ''<h1></h1><h1>c</h1>'') = u ''c''"
    by (simp add: page_title_def match_h1_def lazy_dot1_def strip_tags_def match_tag_def
          strip_prefix_def u_def)
next
  show "page_title (u ''x<h1>abc'') = u ''FP-ASM''"
    by (simp add: page_title_def match_h1_def lazy_dot1_def strip_tags_def match_tag_def
          strip_prefix_def u_def)
next
  have "convert_markdown_to_html db (u ''intro\<newline># The **big** title\<newline>text'')
          = u ''<p>intro</p>\<newline><h1>The <strong>big</strong> title</h1>\<newline>text''"
    by (simp add: eval_defs)
  then show "page_title (convert_markdown_to_html db (u ''intro\<newline># The **big** title\<newline>text''))
        = u ''The big title''"
    by (simp add: page_title_def match_h1_def lazy_dot1_def strip_tags_def match_tag_def
          strip_prefix_def u_def)
qed

theorem title_is_first_h1_then_fixed_up_witness:
  "(\<exists>a. first_h1 (u ''x<h1></h1><h1>A <em>b</em></h1>y'') a (u ''</h1><h1>A <em>b</em>'') (u ''y''))
   \<and> page_title (u ''x<h1></h1><h1>A <em>b</em></h1>y'') = strip_tags (u ''</h1><h1>A <em>b</em>'')
   \<and> (\<forall>a t b. \<not> h1_occurrence (u ''<p><h1>no'' @ [nl] @ u ''heading</h1></p>'') a t b)
   \<and> page_title (u ''<p><h1>no'' @ [nl] @ u ''heading</h1></p>'') = u ''FP-ASM''
   \<and> 60 \<notin> set (u ''A '') \<and> u ''em'' \<noteq> [] \<and> 62 \<notin> set (u ''em'')
   \<and> strip_tags (u ''A '' @ [60] @ u ''em'' @ [62] @ u ''b</em>'') = u ''A '' @ strip_tags (u ''b</em>'')
   \<and> 60 \<notin> set (u ''b'') \<and> strip_tags (u ''b'') = u ''b''"
proof -
  note T = title_is_first_h1_then_fixed_up [of ascii_db "u ''README.md''" "[]",
             THEN conjunct2, THEN conjunct2]
  have "re_search match_h1 (u ''x<h1></h1><h1>A <em>b</em></h1>y'')
          = Some (u ''</h1><h1>A <em>b</em>'', u ''y'')"
    by (simp add: match_h1_def lazy_dot1_def strip_prefix_def u_def)
  then obtain a where a: "first_h1 (u ''x<h1></h1><h1>A <em>b</em></h1>y'') a
      (u ''</h1><h1>A <em>b</em>'') (u ''y'')"
    using search_h1_first_occurrence by blast
  have a': "\<exists>a. first_h1 (u ''x<h1></h1><h1>A <em>b</em></h1>y'') a
      (u ''</h1><h1>A <em>b</em>'') (u ''y'')" using a by blast
  have "re_search match_h1 (u ''<p><h1>no'' @ [nl] @ u ''heading</h1></p>'') = None"
    by (simp add: match_h1_def lazy_dot1_def strip_prefix_def u_def)
  then have n: "\<forall>a t b. \<not> h1_occurrence (u ''<p><h1>no'' @ [nl] @ u ''heading</h1></p>'') a t b"
    using search_h1_no_occurrence by blast
  have b1: "60 \<notin> set (u ''A '')" and b2: "u ''em'' \<noteq> []" and b3: "62 \<notin> set (u ''em'')"
    and c1: "60 \<notin> set (u ''b'')"
    by (simp_all add: u_def)
  from T [THEN conjunct1, rule_format, OF a]
       T [THEN conjunct2, THEN conjunct1, THEN spec, THEN mp, OF n]
       T [THEN conjunct2, THEN conjunct2, THEN conjunct2, THEN conjunct1, rule_format, OF b1 b2 b3]
       T [THEN conjunct2, THEN conjunct2, THEN conjunct2, THEN conjunct2, THEN conjunct1,
          rule_format, OF c1]
       a' n b1 b2 b3 c1
  show ?thesis by (intro conjI)
qed

section \<open>The orchestrator and missing files\<close>








lemma example_world_files:
  "map (files example_world) md_files
     = [Some (Readable (u ''# Hi'')), None, None, None, None, None, None, None]"
  by (simp add: example_world_def md_files_def u_def)


section \<open>Tables\<close>



































section \<open>Unmatched text\<close>














lemma emojis_keep: "list_ex is_emoji (emojis s) = list_ex is_emoji s"
  by (induction s) (auto simp: emojis_def emoji_char_def u_def is_emoji_def)






















end
